(* ===== verification/Prelude.thy ===== *)
theory Prelude
  imports Complex_Main "HOL-Library.Word" "HOL-Library.Multiset"
begin

text \<open>
  Shared vocabulary of the development: Go's machine integers, byte strings, error values and
  the few facts about lists, options and words every component uses.

  Conventions. A Go \<^verbatim>\<open>string\<close> and a \<^verbatim>\<open>[]byte\<close> are byte sequences (\<^typ>\<open>string\<close>). An
  \<^verbatim>\<open>error\<close> result is a \<^verbatim>\<open>go_error option\<close> (\<^verbatim>\<open>nil\<close> is \<^term>\<open>None\<close>); a pair \<^verbatim>\<open>(T, error)\<close>, of
  which exactly one half is meaningful, is the sum \<^verbatim>\<open>go_error + 'a\<close> with the error on the left.
\<close>

named_theorems go_defs \<open>unfolding rules of the modelled operations\<close>
named_theorems go_cases \<open>splitting rules used by the component proofs\<close>

declare option.splits [go_cases] sum.splits [go_cases] prod.splits [go_cases] if_splits [go_cases]

section \<open>Base types\<close>

type_synonym bytes = string
type_synonym int32 = "32 word"
type_synonym uint16 = "16 word"

text \<open>\<^verbatim>\<open>time.Duration\<close> is an \<^verbatim>\<open>int64\<close> count of nanoseconds; arithmetic on it wraps around.\<close>

type_synonym duration = "64 word"

definition Millisecond :: duration where
  "Millisecond = 1000000"

definition Second :: duration where
  "Second = 1000 * Millisecond"

text \<open>A Go \<^verbatim>\<open>map[string]string\<close>: its entries in the order one \<^verbatim>\<open>range\<close> over it visits them.\<close>

type_synonym go_map = "(string \<times> string) list"

section \<open>Errors\<close>

text \<open>
  \<^term>\<open>Errors_New s\<close> is \<^verbatim>\<open>errors.New\<close> or a \<^verbatim>\<open>fmt.Errorf\<close> that wraps nothing; \<^term>\<open>Errorf ps\<close> is a
  \<^verbatim>\<open>fmt.Errorf\<close> with \<^verbatim>\<open>%w\<close> verbs, given by the pieces of its message: rendered text (\<^term>\<open>Inl s\<close>) and
  the wrapped errors (\<^term>\<open>Inr e\<close>) in order; \<^term>\<open>Errors_Joined es\<close> is the result of \<^verbatim>\<open>errors.Join\<close>.
\<close>

datatype go_error =
    Errors_New string
  | Errorf "(string + go_error) list"
  | Errors_Joined "go_error list"

type_synonym err = "go_error option"
type_synonym 'a result = "go_error + 'a"

text \<open>The common shape \<^verbatim>\<open>fmt.Errorf("s: %w", e)\<close>.\<close>

definition wrapf :: "string \<Rightarrow> go_error \<Rightarrow> go_error" where
  "wrapf s e = Errorf [Inl s, Inr e]"

fun join_with :: "string \<Rightarrow> string list \<Rightarrow> string" where
  "join_with sep [] = []"
| "join_with sep [x] = x"
| "join_with sep (x # y # xs) = x @ sep @ join_with sep (y # xs)"

text \<open>The text of an error, Go's \<^verbatim>\<open>Error()\<close> method.\<close>

primrec error_text :: "go_error \<Rightarrow> string" where
  "error_text (Errors_New s) = s"
| "error_text (Errorf ps) = concat (map (case_sum (\<lambda>s. s) (\<lambda>t. t)) (map (map_sum id error_text) ps))"
| "error_text (Errors_Joined es) = join_with [CHR 0x0A] (map error_text es)"

text \<open>
  \<^verbatim>\<open>errors.Is\<close>: the target occurs in the tree of wrapped errors. Errors are compared by structure,
  which for the sentinel errors the program tests (one value per message) agrees with identity.
\<close>

primrec errors_Is :: "go_error \<Rightarrow> go_error \<Rightarrow> bool" where
  "errors_Is (Errors_New s) t = (Errors_New s = t)"
| "errors_Is (Errorf ps) t =
     (Errorf ps = t \<or>
      list_ex (case_sum (\<lambda>_. False) (\<lambda>b. b)) (map (map_sum id (\<lambda>e. errors_Is e t)) ps))"
| "errors_Is (Errors_Joined es) t =
     (Errors_Joined es = t \<or> list_ex (\<lambda>b. b) (map (\<lambda>e. errors_Is e t) es))"

text \<open>The non-nil errors of a list, and \<^verbatim>\<open>errors.Join\<close>, which is nil when all its arguments are.\<close>

definition somes :: "'a option list \<Rightarrow> 'a list" where
  "somes xs = List.map_filter (\<lambda>x. x) xs"

definition errors_Join :: "err list \<Rightarrow> err" where
  "errors_Join es = (let xs = somes es in if xs = [] then None else Some (Errors_Joined xs))"

lemma somes_simps [simp]:
  "somes [] = []"
  "somes (None # xs) = somes xs"
  "somes (Some x # xs) = x # somes xs"
  by (simp_all add: somes_def map_filter_simps)

lemma somes_append [simp]: "somes (xs @ ys) = somes xs @ somes ys"
  by (induction xs) (auto simp: somes_def map_filter_simps split: option.splits)

lemma somes_Nil_iff: "somes xs = [] \<longleftrightarrow> (\<forall>x\<in>set xs. x = None)"
  by (induction xs) (auto simp: somes_def map_filter_simps split: option.splits)

lemma set_somes: "set (somes xs) = {x. Some x \<in> set xs}"
  by (induction xs) (auto simp: somes_def map_filter_simps split: option.splits)

lemma errors_Join_None_iff: "errors_Join es = None \<longleftrightarrow> (\<forall>e\<in>set es. e = None)"
  by (simp add: errors_Join_def Let_def somes_Nil_iff)

lemma errors_Is_refl [simp]: "errors_Is e e"
  by (cases e) auto

lemma errors_Is_part: "Inr e \<in> set ps \<Longrightarrow> errors_Is e t \<Longrightarrow> errors_Is (Errorf ps) t"
  by (force simp: list_ex_iff)

lemma errors_Is_wrapf: "errors_Is e t \<Longrightarrow> errors_Is (wrapf s e) t"
  unfolding wrapf_def by (rule errors_Is_part) simp_all

lemma wrapf_neq [simp]: "wrapf s e \<noteq> Errors_New m" "Errors_New m \<noteq> wrapf s e"
  by (simp_all add: wrapf_def)

lemma errors_Is_joined: "e \<in> set es \<Longrightarrow> errors_Is e t \<Longrightarrow> errors_Is (Errors_Joined es) t"
  by (auto simp: list_ex_iff)

lemma errors_Is_Join:
  assumes "errors_Join es = Some j" and "Some e \<in> set es" and "errors_Is e t"
  shows "errors_Is j t"
  using assms by (auto simp: errors_Join_def Let_def set_somes split: if_splits intro: errors_Is_joined)

section \<open>Lists and options\<close>

lemma filter_length_one:
  assumes "length (filter P xs) = 1"
  obtains ys x zs where "xs = ys @ x # zs" and "P x"
    and "\<forall>y\<in>set ys. \<not> P y" and "\<forall>z\<in>set zs. \<not> P z"
proof -
  from assms obtain x where x: "filter P xs = [x]"
    by (auto simp: length_Suc_conv)
  then obtain ys zs where "xs = ys @ x # zs" "\<forall>y\<in>set ys. \<not> P y" "P x" "filter P zs = []"
    by (auto simp: filter_eq_Cons_iff)
  with that show ?thesis by (metis filter_empty_conv)
qed

lemma ball_set_map_invariant:
  assumes "\<And>x. P (f x) = P x"
  shows "(\<forall>y\<in>set (map f xs). P y) \<longleftrightarrow> (\<forall>x\<in>set xs. P x)"
  by (simp only: set_map ball_simps assms)

lemma length_filter_map_invariant:
  assumes "\<And>x. P (f x) = P x"
  shows "length (filter P (map f xs)) = length (filter P xs)"
  by (induction xs) (simp_all only: list.map filter.simps assms list.size if_cancel split: if_split, auto)

lemma mset_eq_imp_list_all: "mset xs = mset ys \<Longrightarrow> (\<forall>x\<in>set xs. P x) \<longleftrightarrow> (\<forall>y\<in>set ys. P y)"
  by (metis mset_eq_setD)

section \<open>Signed words\<close>

lemma sint_word_bounds64: "- (2 ^ 63) \<le> sint (w :: 64 word)" "sint (w :: 64 word) < 2 ^ 63"
  using sint_range_size [of w] by (auto simp: word_size)

lemma sint_mult_no_overflow:
  fixes a b :: "64 word"
  assumes "- (2 ^ 63) \<le> sint a * sint b" and "sint a * sint b < 2 ^ 63"
  shows "sint (a * b) = sint a * sint b"
proof -
  have "sint (a * b) = signed_take_bit 63 (sint a * sint b)"
    by (simp add: sint_word_ariths(3))
  also have "\<dots> = sint a * sint b"
    using assms by (intro signed_take_bit_int_eq_self) auto
  finally show ?thesis .
qed

end
