(* ===== verification/GoStd.thy ===== *)
theory GoStd
  imports Prelude "HOL-Library.Char_ord" "HOL-Library.List_Lexorder"
begin

text \<open>
  The pure functions of Go's standard library the program calls on strings and paths:
  \<^verbatim>\<open>strings.TrimSpace\<close>, \<^verbatim>\<open>strconv.FormatInt\<close>, \<^verbatim>\<open>net.JoinHostPort\<close>, \<^verbatim>\<open>filepath.Clean\<close> and
  \<^verbatim>\<open>filepath.Dir\<close> (Unix), each as an executable function on byte strings.
\<close>

section \<open>strings.TrimSpace\<close>

text \<open>The UTF-8 encodings of the code points \<^verbatim>\<open>unicode.IsSpace\<close> accepts.\<close>

definition space_encodings :: "string list" where
  "space_encodings =
     [[CHR 0x09], [CHR 0x0A], [CHR 0x0B], [CHR 0x0C], [CHR 0x0D], [CHR 0x20],
      [CHR 0xC2, CHR 0x85], [CHR 0xC2, CHR 0xA0], [CHR 0xE1, CHR 0x9A, CHR 0x80],
      [CHR 0xE2, CHR 0x80, CHR 0x80], [CHR 0xE2, CHR 0x80, CHR 0x81],
      [CHR 0xE2, CHR 0x80, CHR 0x82], [CHR 0xE2, CHR 0x80, CHR 0x83],
      [CHR 0xE2, CHR 0x80, CHR 0x84], [CHR 0xE2, CHR 0x80, CHR 0x85],
      [CHR 0xE2, CHR 0x80, CHR 0x86], [CHR 0xE2, CHR 0x80, CHR 0x87],
      [CHR 0xE2, CHR 0x80, CHR 0x88], [CHR 0xE2, CHR 0x80, CHR 0x89],
      [CHR 0xE2, CHR 0x80, CHR 0x8A], [CHR 0xE2, CHR 0x80, CHR 0xA8],
      [CHR 0xE2, CHR 0x80, CHR 0xA9], [CHR 0xE2, CHR 0x80, CHR 0xAF],
      [CHR 0xE2, CHR 0x81, CHR 0x9F], [CHR 0xE3, CHR 0x80, CHR 0x80]]"

text \<open>The length of the first encoding the string starts with, 0 if there is none.\<close>

fun match_len :: "string list \<Rightarrow> string \<Rightarrow> nat" where
  "match_len [] s = 0"
| "match_len (e # es) s = (if e \<noteq> [] \<and> take (length e) s = e then length e else match_len es s)"

lemma match_len_le: "match_len es s \<le> length s"
  by (induction es) (auto split: if_splits, metis length_take min.cobounded1)

function trim_front :: "string list \<Rightarrow> string \<Rightarrow> string" where
  "trim_front es s =
     (let n = match_len es s in if n = 0 then s else trim_front es (drop n s))"
  by pat_completeness auto
termination
proof (relation "measure (\<lambda>(es, s). length s)", simp)
  fix es s n
  assume "n = match_len es s" "n \<noteq> 0"
  then show "((es, drop n s), es, s) \<in> measure (\<lambda>(es, s). length s)"
    using match_len_le [of es s] by auto
qed

declare trim_front.simps [simp del]

definition TrimLeft :: "string \<Rightarrow> string" where
  "TrimLeft s = trim_front space_encodings s"

definition TrimRight :: "string \<Rightarrow> string" where
  "TrimRight s = rev (trim_front (map rev space_encodings) (rev s))"

definition TrimSpace :: "string \<Rightarrow> string" where
  "TrimSpace s = TrimRight (TrimLeft s)"

lemma match_len_trim_front: "match_len es (trim_front es s) = 0"
  by (induction es s rule: trim_front.induct) (subst trim_front.simps, auto simp: Let_def)

lemma trim_front_suffix: "\<exists>p. s = p @ trim_front es s"
proof (induction es s rule: trim_front.induct)
  case (1 es s)
  show ?case
  proof (cases "match_len es s = 0")
    case True
    then show ?thesis by (subst trim_front.simps) simp
  next
    case False
    with 1 obtain p where "drop (match_len es s) s = p @ trim_front es (drop (match_len es s) s)"
      by blast
    then have "s = (take (match_len es s) s @ p) @ trim_front es (drop (match_len es s) s)"
      by (metis append_assoc append_take_drop_id)
    moreover from False have "trim_front es s = trim_front es (drop (match_len es s) s)"
      by (subst trim_front.simps) (simp add: Let_def)
    ultimately show ?thesis by metis
  qed
qed

lemma match_len_0_prefix: "match_len es (s @ t) = 0 \<Longrightarrow> match_len es s = 0"
  by (induction es) (auto split: if_splits)

lemma trim_front_id: "match_len es s = 0 \<Longrightarrow> trim_front es s = s"
  by (subst trim_front.simps) simp

lemma TrimRight_prefix: "\<exists>q. s = TrimRight s @ q"
proof -
  obtain p where "rev s = p @ trim_front (map rev space_encodings) (rev s)"
    using trim_front_suffix by blast
  then have "s = TrimRight s @ rev p"
    unfolding TrimRight_def by (metis rev_append rev_rev_ident)
  then show ?thesis ..
qed

text \<open>Trimming twice is trimming once.\<close>

lemma TrimSpace_idem [simp]: "TrimSpace (TrimSpace s) = TrimSpace s"
proof -
  let ?t = "TrimSpace s"
  obtain q where "TrimLeft s = ?t @ q"
    using TrimRight_prefix unfolding TrimSpace_def by blast
  then have "match_len space_encodings ?t = 0"
    using match_len_trim_front [of space_encodings s] match_len_0_prefix
    unfolding TrimLeft_def by metis
  then have "TrimLeft ?t = ?t"
    by (simp add: TrimLeft_def trim_front_id)
  moreover have "TrimRight ?t = ?t"
    unfolding TrimSpace_def TrimRight_def
    by (simp add: match_len_trim_front trim_front_id)
  ultimately show ?thesis by (simp add: TrimSpace_def)
qed

lemma TrimSpace_Nil [simp]: "TrimSpace [] = []"
  by (simp add: TrimSpace_def TrimLeft_def TrimRight_def trim_front_id space_encodings_def)

section \<open>strconv.FormatInt and net.JoinHostPort\<close>

fun nat_digits :: "nat \<Rightarrow> string" where
  "nat_digits n =
     (if n < 10 then [char_of (48 + n)] else nat_digits (n div 10) @ [char_of (48 + n mod 10)])"

declare nat_digits.simps [simp del]

text \<open>\<^verbatim>\<open>strconv.FormatInt(i, 10)\<close> and the \<^verbatim>\<open>%d\<close> verb.\<close>

definition FormatInt :: "int \<Rightarrow> string" where
  "FormatInt i = (if i < 0 then CHR ''-'' # nat_digits (nat (- i)) else nat_digits (nat i))"

text \<open>\<^verbatim>\<open>net.JoinHostPort\<close>: a host with a colon is an IPv6 literal and goes in brackets.\<close>

definition JoinHostPort :: "string \<Rightarrow> string \<Rightarrow> string" where
  "JoinHostPort host port =
     (if CHR '':'' \<in> set host then ''['' @ host @ '']:'' @ port else host @ '':'' @ port)"

section \<open>filepath.Clean and filepath.Dir\<close>

text \<open>The elements between the separators of a path.\<close>

fun split_slash :: "string \<Rightarrow> string list" where
  "split_slash [] = [[]]"
| "split_slash (c # s) =
     (if c = CHR ''/'' then [] # split_slash s
      else (case split_slash s of [] \<Rightarrow> [[c]] | x # xs \<Rightarrow> (c # x) # xs))"

text \<open>
  One pass over the elements with the cleaned elements so far (innermost first): empty and
  \<^verbatim>\<open>.\<close> elements go, \<^verbatim>\<open>..\<close> removes the element before it, is kept at the start of a relative
  path and dropped at the root.
\<close>

fun clean_elems :: "bool \<Rightarrow> string list \<Rightarrow> string list \<Rightarrow> string list" where
  "clean_elems rooted [] acc = rev acc"
| "clean_elems rooted (e # es) acc =
     (if e = [] \<or> e = ''.'' then clean_elems rooted es acc
      else if e = ''..'' then
        (case acc of
           [] \<Rightarrow> clean_elems rooted es (if rooted then [] else [''..''])
         | a # acc' \<Rightarrow> clean_elems rooted es (if a = ''..'' then ''..'' # acc else acc'))
      else clean_elems rooted es (e # acc))"

definition Clean :: "string \<Rightarrow> string" where
  "Clean p =
     (let rooted = (case p of [] \<Rightarrow> False | c # _ \<Rightarrow> c = CHR ''/'');
          es = clean_elems rooted (split_slash p) []
      in if rooted then CHR ''/'' # join_with ''/'' es
         else if es = [] then ''.'' else join_with ''/'' es)"

text \<open>\<^verbatim>\<open>filepath.Dir\<close>: the cleaned part up to and including the last separator.\<close>

definition Dir :: "string \<Rightarrow> string" where
  "Dir p = Clean (rev (dropWhile (\<lambda>c. c \<noteq> CHR ''/'') (rev p)))"

lemma Clean_nonempty: "Clean p \<noteq> []"
proof -
  have "join_with ''/'' xs \<noteq> []" if "xs \<noteq> []" "[] \<notin> set xs" for xs
    using that by (induction "''/''" xs rule: join_with.induct) auto
  moreover have "[] \<notin> set (clean_elems r es acc)" if "[] \<notin> set acc" for r es acc
    using that by (induction r es acc rule: clean_elems.induct) (auto split: list.splits)
  ultimately show ?thesis
    by (auto simp: Clean_def Let_def split: list.splits)
qed

text \<open>Sorted listing of a string set, \<^verbatim>\<open>sets.String.List\<close>.\<close>

definition set_List :: "string list \<Rightarrow> string list" where
  "set_List xs = sort (remdups xs)"

section \<open>time.Duration.String\<close>

fun frac_digits :: "nat \<Rightarrow> nat \<Rightarrow> string" where
  "frac_digits 0 v = []"
| "frac_digits (Suc prec) v = frac_digits prec (v div 10) @ [char_of (48 + v mod 10)]"

text \<open>The fraction \<open>v / 10 ^ prec\<close> with its decimal point, trailing zeros left out.\<close>

definition fmtFrac :: "nat \<Rightarrow> nat \<Rightarrow> string" where
  "fmtFrac prec v =
     (let ds = rev (dropWhile (\<lambda>c. c = CHR ''0'') (rev (frac_digits prec v)))
      in if ds = [] then [] else CHR ''.'' # ds)"

definition duration_String :: "duration \<Rightarrow> string" where
  "duration_String d =
     (let u = nat \<bar>sint d\<bar>;
          small = (\<lambda>prec unit. nat_digits (u div 10 ^ prec) @ fmtFrac prec u @ unit);
          body = (if u = 0 then ''0s''
                  else if u < 1000 then small 0 ''ns''
                  else if u < 1000000 then small 3 ([CHR 0xC2, CHR 0xB5] @ ''s'')
                  else if u < 1000000000 then small 6 ''ms''
                  else
                    (let s = u div 1000000000; m = s div 60; h = m div 60
                     in (if m > 0
                         then (if h > 0 then nat_digits h @ ''h'' else []) @ nat_digits (m mod 60) @ ''m''
                         else []) @
                        nat_digits (s mod 60) @ fmtFrac 9 u @ ''s''))
      in if sint d < 0 then CHR ''-'' # body else body)"

end
