(* ===== verification/LoggerContext.thy ===== *)
theory LoggerContext
  imports GoStd
begin

text \<open>
  The logger carried by a context (\<^verbatim>\<open>src/internal/context/logger.go\<close>), Go's \<^verbatim>\<open>context.Context\<close> as far
  as the program uses it, and the selection between a timer and a context in \<^verbatim>\<open>sleepWithContext\<close>
  (\<^verbatim>\<open>src/internal/output/http/http.go\<close>).

  A context is the list of its values, innermost first, and the instant (nanoseconds on the model's
  clock) at which its \<^verbatim>\<open>Done\<close> channel closes, with the \<^verbatim>\<open>Err\<close> it then reports. A log line is a value; what
  the code logs is collected in a list.
\<close>

section \<open>Loggers (github.com/go-logr/logr)\<close>

text \<open>A logger is the discarding logger, or a sink with the names and key/value pairs added to it.\<close>

datatype logger = Discard | Logger "string list" "(string \<times> string) list"

fun WithName :: "logger \<Rightarrow> string \<Rightarrow> logger" where
  "WithName Discard n = Discard"
| "WithName (Logger ns vs) n = Logger (ns @ [n]) vs"

fun WithValues :: "logger \<Rightarrow> (string \<times> string) list \<Rightarrow> logger" where
  "WithValues Discard kvs = Discard"
| "WithValues (Logger ns vs) kvs = Logger ns (vs @ kvs)"

datatype log_entry =
    LogInfo logger string "(string \<times> string) list"
  | LogError logger go_error string "(string \<times> string) list"

section \<open>Contexts\<close>

text \<open>
  Keys of the package's own type \<^verbatim>\<open>contextKey\<close> differ from every key of another type with the same
  text.
\<close>

datatype context_key = ContextKey string | OtherKey string

datatype context_value = LoggerValue logger | OtherValue string

record go_context =
  ctx_values :: "(context_key \<times> context_value) list"
  ctx_done :: "(int \<times> go_error) option"

definition context_Background :: go_context where
  "context_Background = \<lparr>ctx_values = [], ctx_done = None\<rparr>"

definition context_WithValue :: "go_context \<Rightarrow> context_key \<Rightarrow> context_value \<Rightarrow> go_context" where
  "context_WithValue ctx k v = ctx\<lparr>ctx_values := (k, v) # ctx_values ctx\<rparr>"

definition context_Value :: "go_context \<Rightarrow> context_key \<Rightarrow> context_value option" where
  "context_Value ctx k = map_of (ctx_values ctx) k"

definition context_Canceled :: go_error where
  "context_Canceled = Errors_New ''context canceled''"

section \<open>logger.go\<close>

definition loggerKey :: context_key where
  "loggerKey = ContextKey ''logger''"

definition WithLogger :: "go_context \<Rightarrow> logger \<Rightarrow> go_context" where
  "WithLogger ctx l = context_WithValue ctx loggerKey (LoggerValue l)"

definition LoggerFromContext :: "go_context \<Rightarrow> logger" where
  "LoggerFromContext ctx =
     (case context_Value ctx loggerKey of
        Some (LoggerValue l) \<Rightarrow> l
      | _ \<Rightarrow> Discard)"

lemmas logger_context_defs [go_defs] =
  WithLogger_def LoggerFromContext_def context_WithValue_def context_Value_def loggerKey_def

lemma WithLogger_done [simp]: "ctx_done (WithLogger ctx l) = ctx_done ctx"
  by (simp add: logger_context_defs)

text \<open>
  The logger read from a context is the one stored last, whatever values of other keys,
  even with the same key text, were added in between; with no logger stored it is the discarding one;
  and storing a logger leaves cancellation and every other value of the context alone.
\<close>

lemma LoggerFromContext_WithLogger:
  "LoggerFromContext (WithLogger ctx l) = l
   \<and> LoggerFromContext (context_WithValue (WithLogger ctx l) (OtherKey k) v) = l
   \<and> LoggerFromContext context_Background = Discard
   \<and> ctx_done (WithLogger ctx l) = ctx_done ctx
   \<and> (key = loggerKey \<or> context_Value (WithLogger ctx l) key = context_Value ctx key)"
  by (auto simp: logger_context_defs context_Background_def)

section \<open>sleepWithContext\<close>

text \<open>
  The \<^verbatim>\<open>select\<close> between \<^verbatim>\<open>time.After(d)\<close> and \<^verbatim>\<open>ctx.Done()\<close>, entered at \<open>now\<close>: the case that becomes ready
  first is taken; when both are ready at the same instant the runtime chooses, which is the argument
  \<open>timer_wins\<close>. The result is the error and the instant the call returns.
\<close>

definition sleepWithContext :: "bool \<Rightarrow> int \<Rightarrow> go_context \<Rightarrow> duration \<Rightarrow> err \<times> int" where
  "sleepWithContext timer_wins now ctx d =
     (let wake = now + max 0 (sint d)
      in case ctx_done ctx of
           None \<Rightarrow> (None, wake)
         | Some (t, e) \<Rightarrow>
             (let ready = max now t
              in if ready < wake then (Some e, ready)
                 else if wake < ready then (None, wake)
                 else if timer_wins then (None, wake) else (Some e, wake)))"

lemma sleepWithContext_time:
  "now \<le> snd (sleepWithContext tw now ctx d) \<and>
   snd (sleepWithContext tw now ctx d) \<le> now + max 0 (sint d)"
  by (auto simp: sleepWithContext_def Let_def split: option.splits)

lemma sleepWithContext_nil:
  "fst (sleepWithContext tw now ctx d) = None \<Longrightarrow>
   snd (sleepWithContext tw now ctx d) = now + max 0 (sint d)"
  by (auto simp: sleepWithContext_def Let_def split: option.splits if_splits)

lemma sleepWithContext_uncancelled:
  "ctx_done ctx = None \<Longrightarrow> sleepWithContext tw now ctx d = (None, now + max 0 (sint d))"
  by (simp add: sleepWithContext_def)

lemma sleepWithContext_cancelled:
  "ctx_done ctx = Some (t, e) \<Longrightarrow> t \<le> now \<Longrightarrow> 0 < sint d \<Longrightarrow>
   sleepWithContext tw now ctx d = (Some e, now)"
  by (simp add: sleepWithContext_def Let_def)

text \<open>
  A backoff sleep never outlasts its duration and never returns before it started; it
  returns without error only after the whole duration, and with the context's error, at the instant
  of cancellation, whenever the context is cancelled strictly earlier.
\<close>

lemma sleepWithContext_spec:
  "sleepWithContext tw now ctx d = (e, t) \<Longrightarrow>
     now \<le> t \<and> t \<le> now + max 0 (sint d)
   \<and> (e = None \<longrightarrow> t = now + max 0 (sint d))
   \<and> (\<forall>c ce. ctx_done ctx = Some (c, ce) \<and> max now c < now + max 0 (sint d) \<longrightarrow> e = Some ce \<and> t = max now c)
   \<and> (e \<noteq> None \<longrightarrow> (\<exists>c. ctx_done ctx = Some (c, the e) \<and> t = max now c))"
  by (auto simp: sleepWithContext_def Let_def split: option.splits if_splits)

theorem sleepWithContext_spec_witness:
  "sleepWithContext True 10 \<lparr>ctx_values = [], ctx_done = Some (12, context_Canceled)\<rparr> 500
     = (Some context_Canceled, 12)
   \<and> (12::int) \<le> 10 + max 0 (sint (500::duration))"
proof -
  have h: "sleepWithContext True 10 \<lparr>ctx_values = [], ctx_done = Some (12, context_Canceled)\<rparr> 500
     = (Some context_Canceled, 12)"
    by (simp add: sleepWithContext_def)
  with sleepWithContext_spec [OF h] show ?thesis by blast
qed

end
