(* ===== verification/Interfaces.thy ===== *)
theory Interfaces
  imports LoggerContext
begin

text \<open>
  The interfaces between the components: \<^verbatim>\<open>processor.Processor\<close>
  (\<^verbatim>\<open>src/internal/processor/processor.go\<close>) and \<^verbatim>\<open>output.Output\<close> (\<^verbatim>\<open>src/internal/output/output.go\<close>).

  A Go interface value is the table of its methods. What a client may rely on is a locale: its laws
  are discharged where the implementing component is modelled (the annotation injector, the HTTP
  output), and the lemmas a client needs are proved here once, from the laws alone.
\<close>

section \<open>Processors\<close>

record processor =
  Process :: "go_context \<Rightarrow> bytes \<Rightarrow> bytes result"
  processor_Name :: string

text \<open>
  The law of a processor: the context may carry a logger or a deadline, but what comes out is decided
  by the data.
\<close>

locale data_processor =
  fixes p :: processor
  assumes Process_context_free: "Process p ctx data = Process p ctx' data"
begin

lemma Process_background: "Process p ctx data = Process p context_Background data"
  by (rule Process_context_free)

end

section \<open>Outputs: sending\<close>

text \<open>
  The methods of the outputs in use: what \<^verbatim>\<open>Send\<close> of output \<open>o\<close> returns, with a record of what it did,
  and \<^verbatim>\<open>Name\<close>.
\<close>

record ('o, 'w) output_ops =
  Op_Send :: "'o \<Rightarrow> go_context \<Rightarrow> bytes \<Rightarrow> err \<times> 'w"
  Op_Name :: "'o \<Rightarrow> string"

definition send_err :: "('o, 'w) output_ops \<Rightarrow> go_context \<Rightarrow> bytes \<Rightarrow> 'o \<Rightarrow> err" where
  "send_err ops ctx data o1 = fst (Op_Send ops o1 ctx data)"

definition send_effect :: "('o, 'w) output_ops \<Rightarrow> go_context \<Rightarrow> bytes \<Rightarrow> 'o \<Rightarrow> 'w" where
  "send_effect ops ctx data o1 = snd (Op_Send ops o1 ctx data)"

text \<open>
  The law of sending: for an output in order (\<open>usable\<close>), a nil error means the data reached the sink, as
  the record of the call shows.
\<close>

locale output_sender =
  fixes ops :: "('o, 'w) output_ops"
    and usable :: "'o \<Rightarrow> bool"
    and delivered :: "'o \<Rightarrow> bytes \<Rightarrow> 'w \<Rightarrow> bool"
  assumes nil_delivered: "usable o1 \<Longrightarrow> Op_Send ops o1 ctx data = (None, w) \<Longrightarrow> delivered o1 data w"
begin

lemma send_err_nil_delivered:
  "usable o1 \<Longrightarrow> send_err ops ctx data o1 = None \<Longrightarrow> delivered o1 data (send_effect ops ctx data o1)"
  by (cases "Op_Send ops o1 ctx data") (auto simp: send_err_def send_effect_def intro: nil_delivered)

lemma all_nil_delivered:
  assumes "\<forall>o1\<in>set os. usable o1" and "\<forall>o1\<in>set os. send_err ops ctx data o1 = None"
  shows "\<forall>o1\<in>set os. delivered o1 data (send_effect ops ctx data o1)"
  using assms send_err_nil_delivered by blast

end

section \<open>Outputs: construction and closing\<close>

text \<open>
  The loop over outputs that calls \<^verbatim>\<open>Close\<close> on each, in order: the errors, the closed outputs and the
  state of the system afterwards.
\<close>

fun close_each ::
    "('o \<Rightarrow> 'f \<Rightarrow> err \<times> 'o \<times> 'f) \<Rightarrow> 'o list \<Rightarrow> 'f \<Rightarrow> err list \<times> 'o list \<times> 'f" where
  "close_each close [] w = ([], [], w)"
| "close_each close (o1 # os) w =
     (let (e, o2, w) = close o1 w;
          (es, os, w) = close_each close os w
      in (e # es, o2 # os, w))"

lemma close_each_length: "close_each close os w = (es, os', w') \<Longrightarrow> length es = length os \<and> length os' = length os"
  by (induction os arbitrary: w es os') (auto simp: Let_def split: prod.splits)

text \<open>Closing gives back what the output holds, and nothing else.\<close>

locale output_closer =
  fixes close :: "'o \<Rightarrow> 'f \<Rightarrow> err \<times> 'o \<times> 'f"
    and held :: "'o \<Rightarrow> 'r set"
    and used :: "'f \<Rightarrow> 'r set"
    and wf :: "'f \<Rightarrow> bool"
  assumes close_used: "close o1 w = (e, o2, w') \<Longrightarrow> used w' = used w - held o1"
    and close_held: "close o1 w = (e, o2, w') \<Longrightarrow> held o2 = {}"
    and close_wf: "close o1 w = (e, o2, w') \<Longrightarrow> wf w \<Longrightarrow> wf w'"
begin

lemma close_each_used:
  "close_each close os w = (es, os', w') \<Longrightarrow> used w' = used w - \<Union> (held ` set os)"
proof (induction os arbitrary: w es os')
  case (Cons o1 os)
  then obtain e o2 w1 es1 os1 where "close o1 w = (e, o2, w1)" "close_each close os w1 = (es1, os1, w')"
    by (auto simp: Let_def split: prod.splits)
  with Cons.IH [of w1] close_used [of o1 w] show ?case by auto
qed simp

lemma close_each_held: "close_each close os w = (es, os', w') \<Longrightarrow> \<forall>o1\<in>set os'. held o1 = {}"
  by (induction os arbitrary: w es os') (auto simp: Let_def split: prod.splits dest: close_held)

lemma close_each_wf: "close_each close os w = (es, os', w') \<Longrightarrow> wf w \<Longrightarrow> wf w'"
  by (induction os arbitrary: w es os') (auto simp: Let_def split: prod.splits dest: close_wf)

end

text \<open>
  Construction, of an output that is described in order (\<open>good\<close>), either fails and holds nothing, or
  succeeds and holds resources no one held before.
\<close>

locale output_builder = output_closer close held used wf
  for close :: "'o \<Rightarrow> 'f \<Rightarrow> err \<times> 'o \<times> 'f" and held :: "'o \<Rightarrow> 'r set"
    and used :: "'f \<Rightarrow> 'r set" and wf :: "'f \<Rightarrow> bool" +
  fixes build :: "'c \<Rightarrow> 'f \<Rightarrow> 'o result \<times> 'f"
    and good :: "'c \<Rightarrow> bool"
  assumes build_error: "build c w = (Inl e, w') \<Longrightarrow> wf w \<Longrightarrow> used w' = used w \<and> wf w'"
    and build_ok: "good c \<Longrightarrow> build c w = (Inr o1, w') \<Longrightarrow> wf w \<Longrightarrow>
      used w' = used w \<union> held o1 \<and> held o1 \<inter> used w = {} \<and> wf w'"
begin

lemma build_close:
  assumes "good c" and "build c w = (Inr o1, w1)" and "wf w" and "close o1 w1 = (e, o2, w2)"
  shows "used w2 = used w"
  using build_ok [OF assms(1-3)] close_used [OF assms(4)] by auto

end

end
