(* ===== verification/Metrics.thy ===== *)
theory Metrics
  imports Prelude
begin

text \<open>
  The counters of \<^verbatim>\<open>src/internal/metrics/metrics.go\<close>. A counter counts increments (a natural number); a
  counter vector keeps one counter per value of its two labels, the output and the delivery mode.
\<close>

type_synonym counter_vec = "string \<times> string \<Rightarrow> nat"

record metrics =
  AuditReceived :: nat
  AuditSucceeded :: nat
  AuditFailed :: nat
  OutputSucceeded :: counter_vec
  OutputFailed :: counter_vec

definition no_metrics :: metrics where
  "no_metrics = \<lparr>AuditReceived = 0, AuditSucceeded = 0, AuditFailed = 0,
     OutputSucceeded = (\<lambda>_. 0), OutputFailed = (\<lambda>_. 0)\<rparr>"

text \<open>\<^verbatim>\<open>WithLabelValues(output, mode).Inc()\<close>\<close>

definition inc_label :: "string \<Rightarrow> string \<Rightarrow> counter_vec \<Rightarrow> counter_vec" where
  "inc_label out mode c = c((out, mode) := c (out, mode) + 1)"

definition AuditReceived_Inc :: "metrics \<Rightarrow> metrics" where
  "AuditReceived_Inc m = m\<lparr>AuditReceived := AuditReceived m + 1\<rparr>"

definition AuditSucceeded_Inc :: "metrics \<Rightarrow> metrics" where
  "AuditSucceeded_Inc m = m\<lparr>AuditSucceeded := AuditSucceeded m + 1\<rparr>"

definition AuditFailed_Inc :: "metrics \<Rightarrow> metrics" where
  "AuditFailed_Inc m = m\<lparr>AuditFailed := AuditFailed m + 1\<rparr>"

definition OutputSucceeded_Inc :: "string \<Rightarrow> string \<Rightarrow> metrics \<Rightarrow> metrics" where
  "OutputSucceeded_Inc out mode m = m\<lparr>OutputSucceeded := inc_label out mode (OutputSucceeded m)\<rparr>"

definition OutputFailed_Inc :: "string \<Rightarrow> string \<Rightarrow> metrics \<Rightarrow> metrics" where
  "OutputFailed_Inc out mode m = m\<lparr>OutputFailed := inc_label out mode (OutputFailed m)\<rparr>"

lemmas metrics_defs [go_defs] =
  AuditReceived_Inc_def AuditSucceeded_Inc_def AuditFailed_Inc_def OutputSucceeded_Inc_def OutputFailed_Inc_def

lemma inc_label_apply: "inc_label out mode c k = c k + (if k = (out, mode) then 1 else 0)"
  by (simp add: inc_label_def)

lemma inc_label_commute: "inc_label a b (inc_label c d v) = inc_label c d (inc_label a b v)"
  by (rule ext) (simp add: inc_label_apply)

text \<open>The outcome of one send, metered: the output's name, the mode and whether it succeeded.\<close>

definition meter_send :: "string \<Rightarrow> (string \<times> bool) \<Rightarrow> metrics \<Rightarrow> metrics" where
  "meter_send mode r m =
     (if snd r then OutputSucceeded_Inc (fst r) mode m else OutputFailed_Inc (fst r) mode m)"

text \<open>Metering commutes, so the counters do not depend on the order in which sends finish.\<close>

lemma meter_send_commute: "meter_send mode r \<circ> meter_send mode' q = meter_send mode' q \<circ> meter_send mode r"
  by (rule ext) (auto simp: meter_send_def metrics_defs inc_label_commute)

lemma fold_meter_send_perm:
  assumes "mset rs = mset qs"
  shows "fold (meter_send mode) rs m = fold (meter_send mode) qs m"
proof -
  have "fold (meter_send mode) rs = fold (meter_send mode) qs"
    by (rule fold_multiset_equiv [OF _ assms]) (rule meter_send_commute)
  then show ?thesis by simp
qed

lemma fold_meter_send_counts:
  "OutputSucceeded (fold (meter_send mode) rs m) (out, md)
     = OutputSucceeded m (out, md) + (if md = mode then count (mset rs) (out, True) else 0)"
  "OutputFailed (fold (meter_send mode) rs m) (out, md)
     = OutputFailed m (out, md) + (if md = mode then count (mset rs) (out, False) else 0)"
  by (induction rs arbitrary: m) (auto simp: meter_send_def metrics_defs inc_label_apply)

lemma fold_meter_send_totals [simp]:
  "AuditReceived (fold (meter_send mode) rs m) = AuditReceived m"
  "AuditSucceeded (fold (meter_send mode) rs m) = AuditSucceeded m"
  "AuditFailed (fold (meter_send mode) rs m) = AuditFailed m"
  by (induction rs arbitrary: m) (auto simp: meter_send_def metrics_defs)

end
