(* ===== verification/Config.thy ===== *)
theory Config
  imports GoStd
begin

text \<open>
  The configuration API \<^verbatim>\<open>config.auditlog-forwarder.gardener.cloud/v1alpha1\<close>
  (\<^verbatim>\<open>src/pkg/apis/config/v1alpha1\<close>): the types of \<^verbatim>\<open>types.go\<close> as records, the defaulting functions of
  \<^verbatim>\<open>defaults.go\<close> and of the generated \<^verbatim>\<open>zz_generated.defaults.go\<close> as functions on them.

  A nil pointer is \<^term>\<open>None\<close>. The defaulting functions write through pointers and slice elements;
  here each returns the updated value. The lemmas show that defaulting fills exactly the fields
  left at their zero value, never a field the user set, and that doing it twice changes nothing.
\<close>

section \<open>types.go\<close>

definition LogLevelDebug :: string where "LogLevelDebug = ''debug''"
definition LogLevelInfo :: string where "LogLevelInfo = ''info''"
definition LogLevelError :: string where "LogLevelError = ''error''"
definition LogFormatJSON :: string where "LogFormatJSON = ''json''"
definition LogFormatText :: string where "LogFormatText = ''text''"

type_synonym DeliveryMode = string

definition DeliveryModeGuaranteed :: DeliveryMode where
  "DeliveryModeGuaranteed = ''Guaranteed''"

definition DeliveryModeBestEffort :: DeliveryMode where
  "DeliveryModeBestEffort = ''BestEffort''"

lemmas delivery_mode_defs = DeliveryModeGuaranteed_def DeliveryModeBestEffort_def
lemmas log_const_defs =
  LogLevelDebug_def LogLevelInfo_def LogLevelError_def LogFormatJSON_def LogFormatText_def

record TypeMeta =
  Kind :: string
  APIVersion :: string

record Log =
  Level :: string
  Format :: string

record TLS =
  CertFile :: string
  KeyFile :: string
  ClientCAFile :: string

record Server =
  Port :: int32
  MetricsPort :: int32
  Address :: string
  ServerTLS :: TLS

record ClientTLS =
  CAFile :: string
  ClientCertFile :: string
  ClientKeyFile :: string

record OutputHTTP =
  URL :: string
  HTTPTLS :: "ClientTLS option"
  Compression :: string

record OutputConfig =
  DeliveryMode :: DeliveryMode
  HTTP :: "OutputHTTP option"

record AuditlogForwarder =
  Meta :: TypeMeta
  LogConfig :: Log
  ServerConfig :: Server
  Outputs :: "OutputConfig list"
  InjectAnnotations :: go_map

section \<open>defaults.go\<close>

definition SetDefaults_Log :: "Log \<Rightarrow> Log" where
  "SetDefaults_Log obj =
     (let obj = (if Level obj = '''' then obj\<lparr>Level := LogLevelInfo\<rparr> else obj)
      in if Format obj = '''' then obj\<lparr>Format := LogFormatJSON\<rparr> else obj)"

definition SetDefaults_Server :: "Server \<Rightarrow> Server" where
  "SetDefaults_Server obj =
     (let obj = (if Port obj = 0 then obj\<lparr>Port := 10443\<rparr> else obj)
      in if MetricsPort obj = 0 then obj\<lparr>MetricsPort := 8080\<rparr> else obj)"

definition SetDefaults_Outputs :: "OutputConfig list \<Rightarrow> OutputConfig list" where
  "SetDefaults_Outputs outs =
     (if length outs = 1 then
        (if DeliveryMode (outs ! 0) = ''''
         then outs[0 := (outs ! 0)\<lparr>DeliveryMode := DeliveryModeGuaranteed\<rparr>]
         else outs)
      else map (\<lambda>out. if DeliveryMode out = ''''
                      then out\<lparr>DeliveryMode := DeliveryModeBestEffort\<rparr> else out) outs)"

definition SetDefaults_AuditlogForwarder :: "AuditlogForwarder \<Rightarrow> AuditlogForwarder" where
  "SetDefaults_AuditlogForwarder obj =
     (let obj = obj\<lparr>LogConfig := SetDefaults_Log (LogConfig obj)\<rparr>;
          obj = obj\<lparr>ServerConfig := SetDefaults_Server (ServerConfig obj)\<rparr>
      in obj\<lparr>Outputs := SetDefaults_Outputs (Outputs obj)\<rparr>)"

text \<open>The generated defaulter runs the nested defaulters a second time.\<close>

definition SetObjectDefaults_AuditlogForwarder :: "AuditlogForwarder \<Rightarrow> AuditlogForwarder" where
  "SetObjectDefaults_AuditlogForwarder obj =
     (let obj = SetDefaults_AuditlogForwarder obj;
          obj = obj\<lparr>LogConfig := SetDefaults_Log (LogConfig obj)\<rparr>
      in obj\<lparr>ServerConfig := SetDefaults_Server (ServerConfig obj)\<rparr>)"

lemmas defaults_defs [go_defs] =
  SetDefaults_Log_def SetDefaults_Server_def SetDefaults_Outputs_def
  SetDefaults_AuditlogForwarder_def SetObjectDefaults_AuditlogForwarder_def

section \<open>Facts on defaulting\<close>

lemma SetDefaults_Log_fields [simp]:
  "Level (SetDefaults_Log l) = (if Level l = '''' then LogLevelInfo else Level l)"
  "Format (SetDefaults_Log l) = (if Format l = '''' then LogFormatJSON else Format l)"
  by (simp_all add: SetDefaults_Log_def Let_def)

lemma SetDefaults_Server_fields [simp]:
  "Port (SetDefaults_Server s) = (if Port s = 0 then 10443 else Port s)"
  "MetricsPort (SetDefaults_Server s) = (if MetricsPort s = 0 then 8080 else MetricsPort s)"
  "Address (SetDefaults_Server s) = Address s"
  "ServerTLS (SetDefaults_Server s) = ServerTLS s"
  by (simp_all add: SetDefaults_Server_def Let_def)

lemma SetDefaults_Log_idem [simp]: "SetDefaults_Log (SetDefaults_Log l) = SetDefaults_Log l"
  by (simp add: SetDefaults_Log_def Let_def log_const_defs)

lemma SetDefaults_Server_idem [simp]:
  "SetDefaults_Server (SetDefaults_Server s) = SetDefaults_Server s"
  by (simp add: SetDefaults_Server_def Let_def)

lemma length_SetDefaults_Outputs [simp]: "length (SetDefaults_Outputs outs) = length outs"
  by (simp add: SetDefaults_Outputs_def)

lemma SetDefaults_Outputs_nth:
  assumes "i < length outs"
  shows "SetDefaults_Outputs outs ! i =
    (if DeliveryMode (outs ! i) = ''''
     then (outs ! i)\<lparr>DeliveryMode :=
       (if length outs = 1 then DeliveryModeGuaranteed else DeliveryModeBestEffort)\<rparr>
     else outs ! i)"
  using assms by (auto simp: SetDefaults_Outputs_def)

lemma SetDefaults_Outputs_idem [simp]:
  "SetDefaults_Outputs (SetDefaults_Outputs outs) = SetDefaults_Outputs outs"
  by (rule nth_equalityI) (auto simp: SetDefaults_Outputs_nth delivery_mode_defs)

text \<open>The generated second pass over the nested defaulters is redundant.\<close>

lemma SetObjectDefaults_eq: "SetObjectDefaults_AuditlogForwarder = SetDefaults_AuditlogForwarder"
  by (rule ext) (simp add: SetObjectDefaults_AuditlogForwarder_def SetDefaults_AuditlogForwarder_def Let_def)

lemma SetDefaults_AuditlogForwarder_fields [simp]:
  "Meta (SetDefaults_AuditlogForwarder c) = Meta c"
  "LogConfig (SetDefaults_AuditlogForwarder c) = SetDefaults_Log (LogConfig c)"
  "ServerConfig (SetDefaults_AuditlogForwarder c) = SetDefaults_Server (ServerConfig c)"
  "Outputs (SetDefaults_AuditlogForwarder c) = SetDefaults_Outputs (Outputs c)"
  "InjectAnnotations (SetDefaults_AuditlogForwarder c) = InjectAnnotations c"
  by (simp_all add: SetDefaults_AuditlogForwarder_def Let_def)

lemma SetDefaults_AuditlogForwarder_idem [simp]:
  "SetDefaults_AuditlogForwarder (SetDefaults_AuditlogForwarder c) = SetDefaults_AuditlogForwarder c"
  by (rule AuditlogForwarder.equality) simp_all

end
