(* ===== verification/NetHttp.thy ===== *)
theory NetHttp
  imports GoStd
begin

text \<open>
  What the program uses of \<^verbatim>\<open>net/http\<close> on the server side: the response writer, the error responses, and
  the routing of a \<^verbatim>\<open>ServeMux\<close> on which one pattern with a method is registered, as in \<^verbatim>\<open>run\<close> of
  \<^verbatim>\<open>src/cmd/auditlog-forwarder/app/app.go\<close>.
\<close>

section \<open>Response writer\<close>

text \<open>
  \<^verbatim>\<open>http.ResponseWriter\<close>: the header map, and what is on the wire once \<^verbatim>\<open>WriteHeader\<close> was called (the
  status with the headers at that moment; later calls change nothing). Writing the body may fail.
\<close>

record response_writer =
  rw_header :: "(string \<times> string) list"
  rw_wire :: "(int \<times> (string \<times> string) list) option"
  rw_body :: bytes
  rw_write_err :: err

definition header_Set :: "string \<Rightarrow> string \<Rightarrow> response_writer \<Rightarrow> response_writer" where
  "header_Set k v w = w\<lparr>rw_header := filter (\<lambda>kv. fst kv \<noteq> k) (rw_header w) @ [(k, v)]\<rparr>"

definition WriteHeader :: "int \<Rightarrow> response_writer \<Rightarrow> response_writer" where
  "WriteHeader code w =
     (case rw_wire w of None \<Rightarrow> w\<lparr>rw_wire := Some (code, rw_header w)\<rparr> | Some _ \<Rightarrow> w)"

definition Write :: "bytes \<Rightarrow> response_writer \<Rightarrow> err \<times> response_writer" where
  "Write b w =
     (let w = WriteHeader 200 w
      in case rw_write_err w of
           Some e \<Rightarrow> (Some e, w)
         | None \<Rightarrow> (None, w\<lparr>rw_body := rw_body w @ b\<rparr>))"

section \<open>Error responses\<close>

definition header_Add :: "string \<Rightarrow> string \<Rightarrow> response_writer \<Rightarrow> response_writer" where
  "header_Add k v w = w\<lparr>rw_header := rw_header w @ [(k, v)]\<rparr>"

definition header_Del :: "string \<Rightarrow> response_writer \<Rightarrow> response_writer" where
  "header_Del k w = w\<lparr>rw_header := filter (\<lambda>kv. fst kv \<noteq> k) (rw_header w)\<rparr>"

text \<open>\<^verbatim>\<open>http.Error\<close> replaces the content type by plain text and writes the message with a line feed.\<close>

definition http_Error :: "response_writer \<Rightarrow> string \<Rightarrow> int \<Rightarrow> response_writer" where
  "http_Error w msg code =
     (let w = header_Del ''Content-Length'' w;
          w = header_Set ''Content-Type'' ''text/plain; charset=utf-8'' w;
          w = header_Set ''X-Content-Type-Options'' ''nosniff'' w;
          w = WriteHeader code w
      in snd (Write (msg @ [CHR 0x0A]) w))"

definition http_NotFound :: "response_writer \<Rightarrow> response_writer" where
  "http_NotFound w = http_Error w ''404 page not found'' 404"

section \<open>ServeMux\<close>

text \<open>
  A percent-encoded path segment: \<^verbatim>\<open>%XX\<close> is the character with that code; a segment with a malformed
  escape is taken as it is.
\<close>

definition hex_digit :: "char \<Rightarrow> nat option" where
  "hex_digit c =
     (let n = of_char c :: nat
      in if 48 \<le> n \<and> n \<le> 57 then Some (n - 48)
         else if 65 \<le> n \<and> n \<le> 70 then Some (n - 55)
         else if 97 \<le> n \<and> n \<le> 102 then Some (n - 87) else None)"

fun unescape :: "string \<Rightarrow> string option" where
  "unescape [] = Some []"
| "unescape (c # s) =
     (if c \<noteq> CHR ''%'' then map_option (Cons c) (unescape s)
      else (case s of
              a # b # s' \<Rightarrow>
                (case (hex_digit a, hex_digit b) of
                   (Some x, Some y) \<Rightarrow> map_option (Cons (char_of (16 * x + y))) (unescape s')
                 | _ \<Rightarrow> None)
            | _ \<Rightarrow> None))"

definition pathUnescape :: "string \<Rightarrow> string" where
  "pathUnescape s = (case unescape s of Some t \<Rightarrow> t | None \<Rightarrow> s)"

text \<open>The canonical form of a request path: rooted, cleaned, a trailing slash kept.\<close>

definition cleanPath :: "string \<Rightarrow> string" where
  "cleanPath p =
     (if p = [] then ''/''
      else (let p = (if hd p = CHR ''/'' then p else CHR ''/'' # p);
                np = Clean p
            in if last p = CHR ''/'' \<and> np \<noteq> ''/'' then np @ ''/'' else np))"

text \<open>
  A pattern \<open>METHOD /path\<close> without wildcards and without a trailing slash. It matches a path whose
  segments, unescaped, are its own, and a method equal to its own; GET also matches HEAD.
\<close>

definition pattern_method :: "string \<Rightarrow> string" where
  "pattern_method pat = takeWhile (\<lambda>c. c \<noteq> CHR '' '') pat"

definition pattern_segments :: "string \<Rightarrow> string list" where
  "pattern_segments pat = split_slash (drop 2 (dropWhile (\<lambda>c. c \<noteq> CHR '' '') pat))"

definition path_matches :: "string \<Rightarrow> string \<Rightarrow> bool" where
  "path_matches pat path \<longleftrightarrow> map pathUnescape (split_slash (tl path)) = pattern_segments pat"

definition method_matches :: "string \<Rightarrow> string \<Rightarrow> bool" where
  "method_matches pat method \<longleftrightarrow> method = pattern_method pat \<or> pattern_method pat = ''GET'' \<and> method = ''HEAD''"

datatype mux_result = MuxDispatch | MuxRedirect string | MuxMethodNotAllowed "string list" | MuxNotFound | MuxBadRequest

record mux_request =
  mr_Method :: string
  mr_RequestURI :: string
  mr_EscapedPath :: string

definition mux_route :: "string \<Rightarrow> mux_request \<Rightarrow> mux_result" where
  "mux_route pat r =
     (if mr_RequestURI r = ''*'' then MuxBadRequest
      else
        (let path = (if mr_Method r = ''CONNECT'' then mr_EscapedPath r else cleanPath (mr_EscapedPath r))
         in if path \<noteq> mr_EscapedPath r then MuxRedirect path
            else if path_matches pat path then
              (if method_matches pat (mr_Method r) then MuxDispatch
               else MuxMethodNotAllowed (if pattern_method pat = ''GET'' then [''GET'', ''HEAD''] else [pattern_method pat]))
            else MuxNotFound))"

text \<open>The responses the mux gives itself, without calling the registered handler (the protocol is HTTP/1.1 or later).\<close>

fun mux_reply :: "mux_result \<Rightarrow> response_writer \<Rightarrow> response_writer option" where
  "mux_reply (MuxMethodNotAllowed ms) w =
     Some (http_Error (header_Set ''Allow'' (join_with '', '' ms) w) ''Method Not Allowed'' 405)"
| "mux_reply MuxNotFound w = Some (http_NotFound w)"
| "mux_reply MuxBadRequest w = Some (WriteHeader 400 (header_Set ''Connection'' ''close'' w))"
| "mux_reply _ w = None"

section \<open>Facts on routing\<close>

lemma split_slash_single: "CHR ''/'' \<notin> set s \<Longrightarrow> split_slash s = [s]"
  by (induction s) auto

lemma split_slash_not_Nil: "split_slash s \<noteq> []"
  by (induction s) (auto split: list.splits)

lemma split_slash_singleton: "split_slash s = [x] \<longleftrightarrow> x = s \<and> CHR ''/'' \<notin> set s"
proof
  assume "split_slash s = [x]"
  then show "x = s \<and> CHR ''/'' \<notin> set s"
  proof (induction s arbitrary: x)
    case (Cons c s)
    then have "c \<noteq> CHR ''/''" using split_slash_not_Nil [of s] by auto
    with Cons.prems split_slash_not_Nil [of s] obtain y where "split_slash s = [y]" "x = c # y"
      by (cases "split_slash s") auto
    with Cons.IH [of y] \<open>c \<noteq> CHR ''/''\<close> show ?case by auto
  qed simp
qed (simp add: split_slash_single)

text \<open>A rooted path of one proper segment is canonical.\<close>

lemma cleanPath_segment:
  assumes "CHR ''/'' \<notin> set s" and "s \<notin> {[], ''.'', ''..''}"
  shows "cleanPath (CHR ''/'' # s) = CHR ''/'' # s"
proof -
  have "last s \<noteq> CHR ''/''" using assms by (metis insertI1 last_in_set)
  then show ?thesis
    using assms by (simp add: cleanPath_def Clean_def split_slash_single)
qed

lemma cleanPath_rooted: "hd (cleanPath p) = CHR ''/'' \<and> cleanPath p \<noteq> []"
  by (auto simp: cleanPath_def Clean_def Let_def split: list.splits)

text \<open>Which requests a pattern with one segment dispatches.\<close>

lemma mux_route_dispatch:
  assumes "pattern_segments pat = [seg]" and "seg \<notin> {[], ''.'', ''..''}" and "\<not> method_matches pat ''CONNECT''"
  shows "mux_route pat r = MuxDispatch \<longleftrightarrow>
    mr_RequestURI r \<noteq> ''*'' \<and> method_matches pat (mr_Method r)
    \<and> (\<exists>s. mr_EscapedPath r = CHR ''/'' # s \<and> CHR ''/'' \<notin> set s \<and> pathUnescape s = seg)"
    (is "?l \<longleftrightarrow> ?r")
proof
  assume ?l
  then have m: "mr_RequestURI r \<noteq> ''*''" "method_matches pat (mr_Method r)" "path_matches pat (mr_EscapedPath r)"
    by (auto simp: mux_route_def Let_def split: if_splits)
  with assms(3) \<open>?l\<close> have c: "cleanPath (mr_EscapedPath r) = mr_EscapedPath r"
    by (auto simp: mux_route_def Let_def split: if_splits)
  obtain s where s: "mr_EscapedPath r = CHR ''/'' # s"
    using cleanPath_rooted [of "mr_EscapedPath r"] c by (cases "mr_EscapedPath r") auto
  with m(3) assms(1) obtain x where "split_slash s = [x]" "pathUnescape x = seg" by (auto simp: path_matches_def)
  with m s show ?r by (auto simp: split_slash_singleton)
next
  assume ?r
  then obtain s where s: "mr_RequestURI r \<noteq> ''*''" "method_matches pat (mr_Method r)" "mr_EscapedPath r = CHR ''/'' # s"
    "CHR ''/'' \<notin> set s" "pathUnescape s = seg" by blast
  moreover have "s \<notin> {[], ''.'', ''..''}"
    using s(5) assms(2) by (auto simp: pathUnescape_def)
  ultimately show ?l
    using assms(1) by (auto simp: mux_route_def cleanPath_segment path_matches_def split_slash_single)
qed

end
