(* ===== verification/Handler.thy ===== *)
theory Handler
  imports Interfaces Metrics Config NetHttp
begin

text \<open>
  The audit handler, \<^verbatim>\<open>src/internal/handler/audit/handler.go\<close>: \<^verbatim>\<open>NewHandler\<close>, \<^verbatim>\<open>ServeHTTP\<close> with the
  forwarding to outputs of both delivery modes, and the error response.

  The handler is written against the interfaces of processors and outputs, so the model takes the
  methods of the outputs as the argument \<open>ops\<close>. Goroutines that forward one request finish in an order
  the scheduler chooses; the record \<open>fan_schedule\<close> gives the order in which they report (log lines) and
  the order in which their errors arrive in the channel. \<open>handler_state\<close> collects the handler, the
  counters, the log, the \<^verbatim>\<open>Send\<close> calls made and the best-effort goroutines still running.
\<close>

section \<open>Handler\<close>

record http_request =
  r_ctx :: go_context
  r_body :: "bytes result"

record 'o Handler =
  h_logger :: logger
  processors :: "processor list"
  guaranteedOutputs :: "'o list"
  bestEffortOutputs :: "'o list"
  shutdownCtx :: go_context
  bestEffortWg :: nat

definition NewHandler ::
    "logger \<Rightarrow> processor list \<Rightarrow> 'o list \<Rightarrow> 'o list \<Rightarrow> 'o Handler result" where
  "NewHandler l ps gs bs =
     (if length gs = 0 then Inl (Errors_New ''at least one Guaranteed output must be configured'')
      else Inr \<lparr>h_logger = l, processors = ps, guaranteedOutputs = gs, bestEffortOutputs = bs,
                shutdownCtx = context_Background, bestEffortWg = 0\<rparr>)"

text \<open>A best-effort goroutine that is running: its number, the data it forwards and its logger.\<close>

record be_task =
  task_id :: nat
  task_data :: bytes
  task_log :: logger

record ('o, 'w) handler_state =
  hs_handler :: "'o Handler"
  hs_metrics :: metrics
  hs_log :: "log_entry list"
  hs_sends :: "('o \<times> bytes \<times> 'w) list"
  hs_tasks :: "be_task list"
  hs_next :: nat

section \<open>Forwarding\<close>

record 'o fan_schedule =
  report_order :: "'o list"
  arrival_order :: "'o list"

text \<open>
  \<^verbatim>\<open>logAndMeterOutputErr\<close> returns the error it wraps; the log and the counters are threaded through.
\<close>

definition output_failed_err :: "('o, 'w) output_ops \<Rightarrow> 'o \<Rightarrow> go_error \<Rightarrow> go_error" where
  "output_failed_err ops out e = wrapf (''output '' @ Op_Name ops out @ '' failed: '') e"

definition logAndMeterOutputErr ::
    "('o, 'w) output_ops \<Rightarrow> logger \<Rightarrow> 'o \<Rightarrow> go_error \<Rightarrow> metrics \<times> log_entry list \<Rightarrow>
     go_error \<times> metrics \<times> log_entry list" where
  "logAndMeterOutputErr ops l out e ml =
     (output_failed_err ops out e,
      OutputFailed_Inc (Op_Name ops out) DeliveryModeGuaranteed (fst ml),
      snd ml @ [LogError l e ''Failed to forward to Guaranteed output'' [(''output'', Op_Name ops out)]])"

text \<open>What the goroutine of one output does to the counters and the log when its \<^verbatim>\<open>Send\<close> returned.\<close>

definition report_guaranteed ::
    "('o, 'w) output_ops \<Rightarrow> go_context \<Rightarrow> bytes \<Rightarrow> logger \<Rightarrow> 'o \<Rightarrow>
     metrics \<times> log_entry list \<Rightarrow> metrics \<times> log_entry list" where
  "report_guaranteed ops ctx data l out ml =
     (case send_err ops ctx data out of
        Some e \<Rightarrow> snd (logAndMeterOutputErr ops l out e ml)
      | None \<Rightarrow> (OutputSucceeded_Inc (Op_Name ops out) DeliveryModeGuaranteed (fst ml), snd ml))"

text \<open>The errors in the channel when it is closed: those of the outputs that failed, as they arrived.\<close>

definition channel_errs ::
    "('o, 'w) output_ops \<Rightarrow> go_context \<Rightarrow> bytes \<Rightarrow> 'o list \<Rightarrow> go_error list" where
  "channel_errs ops ctx data arrived =
     List.map_filter (\<lambda>out. map_option (output_failed_err ops out) (send_err ops ctx data out)) arrived"

definition guaranteed_result :: "go_error list \<Rightarrow> err" where
  "guaranteed_result errs =
     (if length errs > 0
      then Some (wrapf ''one or more Guaranteed outputs failed: '' (the (errors_Join (map Some errs))))
      else None)"

definition forwardToGuaranteedOutputs ::
    "('o, 'w) output_ops \<Rightarrow> 'o fan_schedule \<Rightarrow> go_context \<Rightarrow> bytes \<Rightarrow> 'o list \<Rightarrow> logger \<Rightarrow>
     metrics \<times> log_entry list \<Rightarrow> err \<times> metrics \<times> log_entry list" where
  "forwardToGuaranteedOutputs ops sched ctx data outputs l ml =
     (if length outputs = 1 then
        (let out = outputs ! 0
         in case send_err ops ctx data out of
              Some e \<Rightarrow> (let (e, ml) = logAndMeterOutputErr ops l out e ml in (Some e, ml))
            | None \<Rightarrow> (None, OutputSucceeded_Inc (Op_Name ops out) DeliveryModeGuaranteed (fst ml), snd ml))
      else
        (guaranteed_result (channel_errs ops ctx data (arrival_order sched)),
         fold (report_guaranteed ops ctx data l) (report_order sched) ml))"

definition report_best_effort ::
    "('o, 'w) output_ops \<Rightarrow> go_context \<Rightarrow> bytes \<Rightarrow> logger \<Rightarrow> 'o \<Rightarrow>
     metrics \<times> log_entry list \<Rightarrow> metrics \<times> log_entry list" where
  "report_best_effort ops ctx data l out ml =
     (case send_err ops ctx data out of
        Some e \<Rightarrow>
          (OutputFailed_Inc (Op_Name ops out) DeliveryModeBestEffort (fst ml),
           snd ml @ [LogError l e ''Failed to forward to BestEffort output'' [(''output'', Op_Name ops out)]])
      | None \<Rightarrow>
          (OutputSucceeded_Inc (Op_Name ops out) DeliveryModeBestEffort (fst ml),
           snd ml @ [LogInfo l ''Successfully forwarded to BestEffort output'' [(''output'', Op_Name ops out)]]))"

definition forwardToBestEffortOutputs ::
    "('o, 'w) output_ops \<Rightarrow> 'o list \<Rightarrow> go_context \<Rightarrow> bytes \<Rightarrow> logger \<Rightarrow>
     metrics \<times> log_entry list \<Rightarrow> metrics \<times> log_entry list" where
  "forwardToBestEffortOutputs ops reports ctx data l ml =
     fold (report_best_effort ops (WithLogger ctx l) data l) reports ml"

text \<open>The calls of \<^verbatim>\<open>Send\<close> a fan-out makes, one per output.\<close>

definition sends_of ::
    "('o, 'w) output_ops \<Rightarrow> go_context \<Rightarrow> bytes \<Rightarrow> 'o list \<Rightarrow> ('o \<times> bytes \<times> 'w) list" where
  "sends_of ops ctx data outputs = map (\<lambda>out. (out, data, send_effect ops ctx data out)) outputs"

section \<open>ServeHTTP\<close>

definition writeErrorResponse ::
    "response_writer \<Rightarrow> logger \<Rightarrow> int \<Rightarrow> string \<Rightarrow> response_writer \<times> log_entry list" where
  "writeErrorResponse w l statusCode message =
     (case Write (''{\"code\":'' @ FormatInt statusCode @ '',\"message\":\"'' @ message @ ''\"}'') w of
        (Some e, w) \<Rightarrow> (w, [LogError l e ''Writing response body'' []])
      | (None, w) \<Rightarrow> (w, []))"

text \<open>The response of each error branch: header, status 500, JSON body, and the counter of failures.\<close>

definition fail_request ::
    "logger \<Rightarrow> string \<Rightarrow> response_writer \<Rightarrow> ('o, 'w) handler_state \<Rightarrow>
     response_writer \<times> ('o, 'w) handler_state" where
  "fail_request l message w st =
     (let w = header_Set ''Content-Type'' ''application/json'' w;
          w = WriteHeader 500 w;
          (w, logs) = writeErrorResponse w l 500 message
      in (w, st\<lparr>hs_log := hs_log st @ logs, hs_metrics := AuditFailed_Inc (hs_metrics st)\<rparr>))"

text \<open>The chain of processors: the data, or the error with the name of the processor that failed.\<close>

fun process_all :: "processor list \<Rightarrow> go_context \<Rightarrow> bytes \<Rightarrow> (go_error \<times> string) + bytes" where
  "process_all [] ctx data = Inr data"
| "process_all (p # ps) ctx data =
     (case Process p ctx data of
        Inl e \<Rightarrow> Inl (e, processor_Name p)
      | Inr data \<Rightarrow> process_all ps ctx data)"

text \<open>\<^verbatim>\<open>h.bestEffortWg.Go(...)\<close>: the counter goes up and the goroutine is running.\<close>

definition spawn_best_effort ::
    "bytes \<Rightarrow> logger \<Rightarrow> ('o, 'w) handler_state \<Rightarrow> ('o, 'w) handler_state" where
  "spawn_best_effort data l st =
     (let h = hs_handler st
      in if length (bestEffortOutputs h) > 0 then
           st\<lparr>hs_handler := h\<lparr>bestEffortWg := bestEffortWg h + 1\<rparr>,
              hs_tasks := hs_tasks st @ [\<lparr>task_id = hs_next st, task_data = data, task_log = l\<rparr>],
              hs_next := hs_next st + 1\<rparr>
         else st)"

definition ServeHTTP ::
    "('o, 'w) output_ops \<Rightarrow> string \<Rightarrow> 'o fan_schedule \<Rightarrow> http_request \<Rightarrow> response_writer \<Rightarrow>
     ('o, 'w) handler_state \<Rightarrow> response_writer \<times> ('o, 'w) handler_state" where
  "ServeHTTP ops req_id sched r w st =
     (let h = hs_handler st;
          st = st\<lparr>hs_metrics := AuditReceived_Inc (hs_metrics st)\<rparr>;
          l = WithValues (h_logger h) [(''req_id'', req_id)]
      in case r_body r of
           Inl e \<Rightarrow>
             fail_request l ''failed reading body request'' w
               (st\<lparr>hs_log := hs_log st @ [LogError l e ''Reading request body'' []]\<rparr>)
         | Inr body \<Rightarrow>
             (let ctx = WithLogger (r_ctx r) l;
                  st = st\<lparr>hs_log := hs_log st @ [LogInfo l ''Received audit events'' []]\<rparr>
              in case process_all (processors h) ctx body of
                   Inl (e, name) \<Rightarrow>
                     fail_request l ''failed processing audit events'' w
                       (st\<lparr>hs_log := hs_log st @ [LogError l e ''Processing audit events'' [(''processor'', name)]]\<rparr>)
                 | Inr processedData \<Rightarrow>
                     (let (ge, m, lg) = forwardToGuaranteedOutputs ops sched ctx processedData
                            (guaranteedOutputs h) l (hs_metrics st, hs_log st);
                          st = st\<lparr>hs_metrics := m, hs_log := lg,
                            hs_sends := hs_sends st @ sends_of ops ctx processedData (guaranteedOutputs h)\<rparr>
                      in case ge of
                           Some e \<Rightarrow>
                             fail_request l ''failed forwarding audit events'' w
                               (st\<lparr>hs_log := hs_log st @
                                  [LogError l e ''Failed to forward audit events to Guaranteed outputs'' []]\<rparr>)
                         | None \<Rightarrow>
                             (let st = spawn_best_effort processedData l st;
                                  st = st\<lparr>hs_log := hs_log st @
                                    [LogInfo l ''Forwarded audit events to Guaranteed outputs'' []]\<rparr>
                              in (WriteHeader 200 w,
                                  st\<lparr>hs_metrics := AuditSucceeded_Inc (hs_metrics st)\<rparr>)))))"


section \<open>The forwarding functions do not depend on the schedule\<close>

definition valid_schedule :: "'o list \<Rightarrow> 'o fan_schedule \<Rightarrow> bool" where
  "valid_schedule outputs sched \<longleftrightarrow>
     mset (report_order sched) = mset outputs \<and> mset (arrival_order sched) = mset outputs"

definition all_sent :: "('o, 'w) output_ops \<Rightarrow> go_context \<Rightarrow> bytes \<Rightarrow> 'o list \<Rightarrow> bool" where
  "all_sent ops ctx data outputs \<longleftrightarrow> (\<forall>out\<in>set outputs. send_err ops ctx data out = None)"

text \<open>The sends of a fan-out as the counters see them.\<close>

definition send_marks :: "('o, 'w) output_ops \<Rightarrow> go_context \<Rightarrow> bytes \<Rightarrow> 'o list \<Rightarrow> (string \<times> bool) list" where
  "send_marks ops ctx data outputs =
     map (\<lambda>out. (Op_Name ops out, send_err ops ctx data out = None)) outputs"

lemma channel_errs_Nil_iff: "channel_errs ops ctx data os = [] \<longleftrightarrow> all_sent ops ctx data os"
  by (induction os) (auto simp: channel_errs_def all_sent_def map_filter_simps split: option.splits)

lemma guaranteed_result_None_iff: "guaranteed_result es = None \<longleftrightarrow> es = []"
  by (simp add: guaranteed_result_def)

lemma report_guaranteed_metrics:
  "fst (fold (report_guaranteed ops ctx data l) os ml)
     = fold (meter_send DeliveryModeGuaranteed) (send_marks ops ctx data os) (fst ml)"
  by (induction os arbitrary: ml)
     (auto simp: send_marks_def report_guaranteed_def logAndMeterOutputErr_def meter_send_def split: option.splits)

lemma report_best_effort_metrics:
  "fst (fold (report_best_effort ops ctx data l) os ml)
     = fold (meter_send DeliveryModeBestEffort) (send_marks ops ctx data os) (fst ml)"
  by (induction os arbitrary: ml)
     (auto simp: send_marks_def report_best_effort_def meter_send_def split: option.splits)

lemma forward_None_iff:
  assumes "valid_schedule outputs sched"
  shows "fst (forwardToGuaranteedOutputs ops sched ctx data outputs l ml) = None
     \<longleftrightarrow> all_sent ops ctx data outputs"
proof (cases "length outputs = 1")
  case True
  then obtain out where "outputs = [out]" by (auto simp: length_Suc_conv)
  then show ?thesis
    by (auto simp: forwardToGuaranteedOutputs_def all_sent_def logAndMeterOutputErr_def split: option.splits)
next
  case False
  have "all_sent ops ctx data (arrival_order sched) \<longleftrightarrow> all_sent ops ctx data outputs"
    unfolding all_sent_def using assms mset_eq_imp_list_all [of "arrival_order sched" outputs]
    by (simp add: valid_schedule_def)
  with False show ?thesis
    by (simp add: forwardToGuaranteedOutputs_def guaranteed_result_None_iff channel_errs_Nil_iff)
qed

lemma forward_metrics:
  assumes "valid_schedule outputs sched"
  shows "fst (snd (forwardToGuaranteedOutputs ops sched ctx data outputs l ml))
     = fold (meter_send DeliveryModeGuaranteed) (send_marks ops ctx data outputs) (fst ml)"
proof (cases "length outputs = 1")
  case True
  then obtain out where "outputs = [out]" by (auto simp: length_Suc_conv)
  then show ?thesis
    by (auto simp: forwardToGuaranteedOutputs_def send_marks_def meter_send_def logAndMeterOutputErr_def
        split: option.splits)
next
  case False
  have "mset (send_marks ops ctx data (report_order sched)) = mset (send_marks ops ctx data outputs)"
    using assms by (simp add: send_marks_def valid_schedule_def)
  from fold_meter_send_perm [OF this] False show ?thesis
    by (simp add: forwardToGuaranteedOutputs_def report_guaranteed_metrics)
qed

section \<open>What a request amounts to\<close>

definition request_log :: "'o Handler \<Rightarrow> string \<Rightarrow> logger" where
  "request_log h req_id = WithValues (h_logger h) [(''req_id'', req_id)]"

definition request_ctx :: "'o Handler \<Rightarrow> string \<Rightarrow> http_request \<Rightarrow> go_context" where
  "request_ctx h req_id r = WithLogger (r_ctx r) (request_log h req_id)"

text \<open>The data a request has forwarded to guaranteed outputs, if it gets that far.\<close>

definition request_data :: "'o Handler \<Rightarrow> string \<Rightarrow> http_request \<Rightarrow> string + bytes" where
  "request_data h req_id r =
     (case r_body r of
        Inl e \<Rightarrow> Inl ''failed reading body request''
      | Inr body \<Rightarrow>
          (case process_all (processors h) (request_ctx h req_id r) body of
             Inl e \<Rightarrow> Inl ''failed processing audit events''
           | Inr data \<Rightarrow> Inr data))"

definition request_ok :: "('o, 'w) output_ops \<Rightarrow> 'o Handler \<Rightarrow> string \<Rightarrow> http_request \<Rightarrow> bool" where
  "request_ok ops h req_id r \<longleftrightarrow>
     (case request_data h req_id r of
        Inl msg \<Rightarrow> False
      | Inr data \<Rightarrow> all_sent ops (request_ctx h req_id r) data (guaranteedOutputs h))"

definition failure_message :: "'o Handler \<Rightarrow> string \<Rightarrow> http_request \<Rightarrow> string" where
  "failure_message h req_id r =
     (case request_data h req_id r of Inl msg \<Rightarrow> msg | Inr data \<Rightarrow> ''failed forwarding audit events'')"

definition error_response :: "string \<Rightarrow> response_writer \<Rightarrow> response_writer" where
  "error_response msg w =
     (let w = header_Set ''Content-Type'' ''application/json'' w
      in w\<lparr>rw_wire := Some (500, rw_header w),
           rw_body := rw_body w @ ''{\"code\":500,\"message\":\"'' @ msg @ ''\"}''\<rparr>)"

definition fresh_writer :: "response_writer \<Rightarrow> bool" where
  "fresh_writer w \<longleftrightarrow> rw_wire w = None \<and> rw_write_err w = None"

lemma FormatInt_500: "FormatInt 500 = ''500''"
  by (simp add: FormatInt_def nat_digits.simps char_of_eq_iff)

lemma fail_request_writer: "fresh_writer w \<Longrightarrow> fst (fail_request l msg w st) = error_response msg w"
  by (simp add: fail_request_def writeErrorResponse_def Write_def WriteHeader_def header_Set_def
      error_response_def fresh_writer_def FormatInt_500 Let_def)

lemma fail_request_state:
  "hs_handler (snd (fail_request l msg w st)) = hs_handler st"
  "hs_metrics (snd (fail_request l msg w st)) = AuditFailed_Inc (hs_metrics st)"
  "hs_sends (snd (fail_request l msg w st)) = hs_sends st"
  "hs_tasks (snd (fail_request l msg w st)) = hs_tasks st"
  "hs_next (snd (fail_request l msg w st)) = hs_next st"
  by (simp_all add: fail_request_def Let_def split: prod.splits)


text \<open>
  The three ways through \<^verbatim>\<open>ServeHTTP\<close>, with the state in which the error response or the success is
  produced.
\<close>

definition received_state :: "log_entry list \<Rightarrow> ('o, 'w) handler_state \<Rightarrow> ('o, 'w) handler_state" where
  "received_state logs st =
     st\<lparr>hs_metrics := AuditReceived_Inc (hs_metrics st), hs_log := hs_log st @ logs\<rparr>"

definition forwarded_state ::
    "('o, 'w) output_ops \<Rightarrow> string \<Rightarrow> http_request \<Rightarrow> bytes \<Rightarrow> log_entry list \<Rightarrow>
     ('o, 'w) handler_state \<Rightarrow> ('o, 'w) handler_state" where
  "forwarded_state ops req_id r data logs st =
     (let h = hs_handler st; ctx = request_ctx h req_id r
      in st\<lparr>hs_metrics := fold (meter_send DeliveryModeGuaranteed)
              (send_marks ops ctx data (guaranteedOutputs h)) (AuditReceived_Inc (hs_metrics st)),
            hs_log := logs,
            hs_sends := hs_sends st @ sends_of ops ctx data (guaranteedOutputs h)\<rparr>)"

definition succeeded_state ::
    "bytes \<Rightarrow> logger \<Rightarrow> ('o, 'w) handler_state \<Rightarrow> ('o, 'w) handler_state" where
  "succeeded_state data l st =
     (let s = spawn_best_effort data l st
      in s\<lparr>hs_log := hs_log s @ [LogInfo l ''Forwarded audit events to Guaranteed outputs'' []],
           hs_metrics := AuditSucceeded_Inc (hs_metrics s)\<rparr>)"

lemma ServeHTTP_no_data:
  assumes "request_data (hs_handler st) req_id r = Inl msg"
  obtains logs where "ServeHTTP ops req_id sched r w st =
    fail_request (request_log (hs_handler st) req_id) msg w (received_state logs st)"
  using assms that
  by (auto simp: request_data_def ServeHTTP_def received_state_def request_log_def request_ctx_def Let_def
      split: sum.splits prod.splits)

lemma ServeHTTP_data:
  assumes "request_data (hs_handler st) req_id r = Inr data"
    and "valid_schedule (guaranteedOutputs (hs_handler st)) sched"
  obtains logs where "ServeHTTP ops req_id sched r w st =
    (if request_ok ops (hs_handler st) req_id r
     then (WriteHeader 200 w, succeeded_state data (request_log (hs_handler st) req_id)
             (forwarded_state ops req_id r data logs st))
     else fail_request (request_log (hs_handler st) req_id) ''failed forwarding audit events'' w
            (forwarded_state ops req_id r data logs st))"
proof -
  let ?h = "hs_handler st"
  let ?l = "request_log ?h req_id"
  let ?ctx = "request_ctx ?h req_id r"
  let ?st = "received_state [LogInfo ?l ''Received audit events'' []] st"
  from assms(1) obtain body where b: "r_body r = Inr body"
      "process_all (processors ?h) ?ctx body = Inr data"
    by (auto simp: request_data_def split: sum.splits)
  obtain ge m lg where f: "forwardToGuaranteedOutputs ops sched ?ctx data (guaranteedOutputs ?h) ?l
      (hs_metrics ?st, hs_log ?st) = (ge, m, lg)" by (metis prod_cases3)
  have ok: "request_ok ops ?h req_id r \<longleftrightarrow> ge = None"
    using forward_None_iff [OF assms(2), of ops ?ctx data ?l "(hs_metrics ?st, hs_log ?st)"] f
    by (simp add: request_ok_def assms(1))
  have m: "m = fold (meter_send DeliveryModeGuaranteed) (send_marks ops ?ctx data (guaranteedOutputs ?h))
      (AuditReceived_Inc (hs_metrics st))"
    using forward_metrics [OF assms(2), of ops ?ctx data ?l "(hs_metrics ?st, hs_log ?st)"] f
    by (simp add: received_state_def)
  show ?thesis
  proof (cases ge)
    case None
    with b f m ok show ?thesis
      by (intro that [of lg])
         (simp add: succeeded_state_def ServeHTTP_def Let_def received_state_def forwarded_state_def
            request_log_def [symmetric] request_ctx_def [symmetric])
  next
    case (Some e)
    with b f m ok show ?thesis
      by (intro that [of "lg @ [LogError ?l e ''Failed to forward audit events to Guaranteed outputs'' []]"])
         (cases st; simp add: ServeHTTP_def Let_def received_state_def forwarded_state_def
            request_log_def [symmetric] request_ctx_def [symmetric])
  qed
qed

lemma succeeded_state_simps:
  "hs_metrics (succeeded_state data l st) = AuditSucceeded_Inc (hs_metrics st)"
  "hs_sends (succeeded_state data l st) = hs_sends st"
  "guaranteedOutputs (hs_handler (succeeded_state data l st)) = guaranteedOutputs (hs_handler st)"
  "processors (hs_handler (succeeded_state data l st)) = processors (hs_handler st)"
  "bestEffortOutputs (hs_handler (succeeded_state data l st)) = bestEffortOutputs (hs_handler st)"
  "h_logger (hs_handler (succeeded_state data l st)) = h_logger (hs_handler st)"
  "shutdownCtx (hs_handler (succeeded_state data l st)) = shutdownCtx (hs_handler st)"
  by (simp_all add: succeeded_state_def spawn_best_effort_def Let_def)

lemma succeeded_state_tasks:
  "bestEffortWg (hs_handler (succeeded_state data l st)) =
     bestEffortWg (hs_handler st) + (if bestEffortOutputs (hs_handler st) = [] then 0 else 1)"
  "hs_tasks (succeeded_state data l st) = hs_tasks st @
     (if bestEffortOutputs (hs_handler st) = [] then []
      else [\<lparr>task_id = hs_next st, task_data = data, task_log = l\<rparr>])"
  "hs_next (succeeded_state data l st) =
     hs_next st + (if bestEffortOutputs (hs_handler st) = [] then 0 else 1)"
  by (simp_all add: succeeded_state_def spawn_best_effort_def Let_def)

lemma received_state_simps:
  "hs_handler (received_state logs st) = hs_handler st"
  "hs_metrics (received_state logs st) = AuditReceived_Inc (hs_metrics st)"
  "hs_sends (received_state logs st) = hs_sends st"
  "hs_tasks (received_state logs st) = hs_tasks st"
  "hs_next (received_state logs st) = hs_next st"
  by (simp_all add: received_state_def)

lemma forwarded_state_simps:
  "hs_handler (forwarded_state ops req_id r data logs st) = hs_handler st"
  "hs_tasks (forwarded_state ops req_id r data logs st) = hs_tasks st"
  "hs_next (forwarded_state ops req_id r data logs st) = hs_next st"
  "hs_sends (forwarded_state ops req_id r data logs st) = hs_sends st @
     sends_of ops (request_ctx (hs_handler st) req_id r) data (guaranteedOutputs (hs_handler st))"
  "hs_metrics (forwarded_state ops req_id r data logs st) = fold (meter_send DeliveryModeGuaranteed)
     (send_marks ops (request_ctx (hs_handler st) req_id r) data (guaranteedOutputs (hs_handler st)))
     (AuditReceived_Inc (hs_metrics st))"
  by (simp_all add: forwarded_state_def Let_def)

lemmas serve_simps =
  fail_request_state succeeded_state_simps succeeded_state_tasks received_state_simps forwarded_state_simps

section \<open>Properties of ServeHTTP\<close>

lemma ServeHTTP_writer:
  assumes "valid_schedule (guaranteedOutputs (hs_handler st)) sched" and "fresh_writer w"
  shows "fst (ServeHTTP ops req_id sched r w st) =
    (if request_ok ops (hs_handler st) req_id r then w\<lparr>rw_wire := Some (200, rw_header w)\<rparr>
     else error_response (failure_message (hs_handler st) req_id r) w)"
proof (cases "request_data (hs_handler st) req_id r")
  case (Inl msg)
  then have "\<not> request_ok ops (hs_handler st) req_id r" "failure_message (hs_handler st) req_id r = msg"
    by (simp_all add: request_ok_def failure_message_def)
  with ServeHTTP_no_data [OF Inl, of ops sched w] fail_request_writer [OF assms(2)] show ?thesis by metis
next
  case (Inr data)
  have "WriteHeader 200 w = w\<lparr>rw_wire := Some (200, rw_header w)\<rparr>"
    using assms(2) by (simp add: WriteHeader_def fresh_writer_def)
  moreover have "failure_message (hs_handler st) req_id r = ''failed forwarding audit events''"
    using Inr by (simp add: failure_message_def)
  ultimately show ?thesis
    using ServeHTTP_data [OF Inr assms(1), of ops w] fail_request_writer [OF assms(2)]
    by (metis fst_conv)
qed

text \<open>
  Property C2. The response to a request, on every branch: status 200, with no body, exactly when the
  body was read, every processor succeeded and every guaranteed output took the processed data;
  otherwise status 500 with a JSON content type and a JSON body that names the stage that failed. The
  order in which concurrent sends finish and the best-effort outputs have no influence on it.
\<close>

theorem ServeHTTP_response:
  assumes "valid_schedule (guaranteedOutputs h) sched"
    and "hs_handler st = h\<lparr>bestEffortOutputs := bs\<rparr>"
    and "w = \<lparr>rw_header = [], rw_wire = None, rw_body = [], rw_write_err = None\<rparr>"
  shows "\<exists>w'. fst (ServeHTTP ops req_id sched r w st) = w'
    \<and> (if request_ok ops h req_id r then rw_wire w' = Some (200, []) \<and> rw_body w' = []
       else rw_wire w' = Some (500, [(''Content-Type'', ''application/json'')])
          \<and> rw_body w' = ''{\"code\":500,\"message\":\"'' @ failure_message h req_id r @ ''\"}'')"
proof -
  have eq: "request_data (h\<lparr>bestEffortOutputs := bs\<rparr>) req_id r = request_data h req_id r"
    "request_ctx (h\<lparr>bestEffortOutputs := bs\<rparr>) req_id r = request_ctx h req_id r"
    by (cases "r_body r"; simp add: request_data_def request_ctx_def request_log_def)+
  have "request_ok ops (hs_handler st) req_id r = request_ok ops h req_id r"
    "failure_message (hs_handler st) req_id r = failure_message h req_id r"
    by (simp_all add: assms(2) eq request_ok_def failure_message_def split: sum.split)
  with ServeHTTP_writer [of st sched w ops req_id r] assms show ?thesis
    by (simp add: fresh_writer_def error_response_def header_Set_def Let_def)
qed

lemma ServeHTTP_E:
  assumes "ServeHTTP ops req_id sched r w st = (w', st')"
    and "valid_schedule (guaranteedOutputs (hs_handler st)) sched"
  obtains (refused) msg logs where "request_data (hs_handler st) req_id r = Inl msg"
      "\<not> request_ok ops (hs_handler st) req_id r"
      "st' = snd (fail_request (request_log (hs_handler st) req_id) msg w (received_state logs st))"
  | (failed) data logs where "request_data (hs_handler st) req_id r = Inr data"
      "\<not> request_ok ops (hs_handler st) req_id r"
      "st' = snd (fail_request (request_log (hs_handler st) req_id) ''failed forwarding audit events'' w
               (forwarded_state ops req_id r data logs st))"
  | (served) data logs where "request_data (hs_handler st) req_id r = Inr data"
      "request_ok ops (hs_handler st) req_id r"
      "st' = succeeded_state data (request_log (hs_handler st) req_id)
               (forwarded_state ops req_id r data logs st)"
proof (cases "request_data (hs_handler st) req_id r")
  case (Inl msg)
  then have "\<not> request_ok ops (hs_handler st) req_id r" by (simp add: request_ok_def)
  with Inl ServeHTTP_no_data [OF Inl, of ops sched w] assms(1) refused show ?thesis by (metis snd_conv)
next
  case (Inr data)
  from ServeHTTP_data [OF Inr assms(2), of ops w] Inr assms(1) failed served show ?thesis
    by (metis snd_conv)
qed



text \<open>A sequence of requests, each with what surrounds it, one after the other.\<close>

record ('o, 'w) exchange =
  ex_ops :: "('o, 'w) output_ops"
  ex_id :: string
  ex_sched :: "'o fan_schedule"
  ex_req :: http_request
  ex_writer :: response_writer

fun serve_seq ::
    "('o, 'w) exchange list \<Rightarrow> ('o, 'w) handler_state \<Rightarrow> response_writer list \<times> ('o, 'w) handler_state" where
  "serve_seq [] st = ([], st)"
| "serve_seq (x # xs) st =
     (let (w, st) = ServeHTTP (ex_ops x) (ex_id x) (ex_sched x) (ex_req x) (ex_writer x) st;
          (ws, st) = serve_seq xs st
      in (w # ws, st))"

definition answered :: "int \<Rightarrow> response_writer \<Rightarrow> bool" where
  "answered code w \<longleftrightarrow> map_option fst (rw_wire w) = Some code"

lemma ServeHTTP_counts:
  assumes "ServeHTTP ops req_id sched r w st = (w', st')"
    and "valid_schedule (guaranteedOutputs (hs_handler st)) sched" and "fresh_writer w"
  shows "AuditReceived (hs_metrics st') = AuditReceived (hs_metrics st) + 1"
    and "AuditSucceeded (hs_metrics st') = AuditSucceeded (hs_metrics st) + (if answered 200 w' then 1 else 0)"
    and "AuditFailed (hs_metrics st') = AuditFailed (hs_metrics st) + (if answered 500 w' then 1 else 0)"
    and "answered 200 w' \<noteq> answered 500 w'"
    and "guaranteedOutputs (hs_handler st') = guaranteedOutputs (hs_handler st)"
proof -
  have w: "answered 200 w' = request_ok ops (hs_handler st) req_id r"
      "answered 500 w' = (\<not> request_ok ops (hs_handler st) req_id r)"
    using ServeHTTP_writer [OF assms(2,3), of ops req_id r] assms(1)
    by (simp_all add: answered_def error_response_def Let_def)
  show "AuditReceived (hs_metrics st') = AuditReceived (hs_metrics st) + 1"
    and "AuditSucceeded (hs_metrics st') = AuditSucceeded (hs_metrics st) + (if answered 200 w' then 1 else 0)"
    and "AuditFailed (hs_metrics st') = AuditFailed (hs_metrics st) + (if answered 500 w' then 1 else 0)"
    and "guaranteedOutputs (hs_handler st') = guaranteedOutputs (hs_handler st)"
    using assms(1,2)
    by (cases rule: ServeHTTP_E; simp add: w serve_simps AuditReceived_Inc_def AuditFailed_Inc_def
        AuditSucceeded_Inc_def)+
  show "answered 200 w' \<noteq> answered 500 w'" by (simp add: w)
qed

text \<open>
  The counters account for every request: over any sequence of requests, the received
  counter grows by their number, the succeeded counter by the number of responses with status 200 and
  the failed counter by the number of responses with status 500, which are all the responses there are.
\<close>

lemma serve_seq_accounting:
  assumes "serve_seq xs st = (ws, st')"
    and "\<forall>x\<in>set xs. valid_schedule (guaranteedOutputs (hs_handler st)) (ex_sched x) \<and> fresh_writer (ex_writer x)"
  shows "AuditReceived (hs_metrics st') = AuditReceived (hs_metrics st) + length xs
    \<and> AuditSucceeded (hs_metrics st') = AuditSucceeded (hs_metrics st) + length (filter (answered 200) ws)
    \<and> AuditFailed (hs_metrics st') = AuditFailed (hs_metrics st) + length (filter (answered 500) ws)
    \<and> length xs = length (filter (answered 200) ws) + length (filter (answered 500) ws)"
  using assms
proof (induction xs arbitrary: st ws)
  case (Cons x xs)
  from Cons.prems(1) obtain w st1 ws1 where
    s: "ServeHTTP (ex_ops x) (ex_id x) (ex_sched x) (ex_req x) (ex_writer x) st = (w, st1)"
      "serve_seq xs st1 = (ws1, st')" "ws = w # ws1"
    by (auto simp: Let_def split: prod.splits)
  note c = ServeHTTP_counts [OF s(1)]
  from Cons.IH [OF s(2)] Cons.prems(2) c s(3) show ?case by auto
qed simp

text \<open>
  The counters of the outputs: a request that reaches forwarding adds, for each name, the
  number of guaranteed outputs of that name that took the data to the succeeded counter and the number
  of those that failed to the failed counter, under the mode \<^verbatim>\<open>Guaranteed\<close>; a request refused before that
  leaves every output counter as it was; counters of other modes never change.
\<close>

lemma ServeHTTP_output_counters:
  assumes "ServeHTTP ops req_id sched r w st = (w', st')"
    and "valid_schedule (guaranteedOutputs (hs_handler st)) sched"
  shows "let h = hs_handler st;
      sent_as = (\<lambda>ok. case request_data h req_id r of
        Inl msg \<Rightarrow> 0
      | Inr data \<Rightarrow> length (filter (\<lambda>out. Op_Name ops out = name
            \<and> (send_err ops (request_ctx h req_id r) data out = None) = ok) (guaranteedOutputs h)))
    in OutputSucceeded (hs_metrics st') (name, mode) = OutputSucceeded (hs_metrics st) (name, mode)
         + (if mode = DeliveryModeGuaranteed then sent_as True else 0)
     \<and> OutputFailed (hs_metrics st') (name, mode) = OutputFailed (hs_metrics st) (name, mode)
         + (if mode = DeliveryModeGuaranteed then sent_as False else 0)"
proof -
  have c: "count (mset (send_marks ops ctx data os)) (name, ok) =
      length (filter (\<lambda>out. Op_Name ops out = name \<and> (send_err ops ctx data out = None) = ok) os)"
    for ctx data os ok
    by (induction os) (auto simp: send_marks_def)
  show ?thesis
    using assms
    by (cases rule: ServeHTTP_E)
       (simp_all add: serve_simps fold_meter_send_counts c AuditReceived_Inc_def AuditFailed_Inc_def
          AuditSucceeded_Inc_def Let_def)
qed

section \<open>Delivery, from the laws of outputs\<close>

context output_sender
begin

lemma request_ok_delivered:
  assumes "request_ok ops h req_id r" and "\<forall>out\<in>set (guaranteedOutputs h). usable out"
  obtains data where "request_data h req_id r = Inr data"
    and "\<forall>out\<in>set (guaranteedOutputs h).
           delivered out data (send_effect ops (request_ctx h req_id r) data out)"
  using assms that all_nil_delivered [of "guaranteedOutputs h" "request_ctx h req_id r"]
  by (auto simp: request_ok_def all_sent_def split: sum.splits)

end


section \<open>Context independence, from the law of processors\<close>

lemma process_all_context_free:
  assumes "\<forall>p\<in>set ps. data_processor p"
  shows "process_all ps ctx data = process_all ps ctx' data"
  using assms
proof (induction ps arbitrary: data)
  case (Cons p ps)
  have "Process p ctx data = Process p ctx' data"
    using Cons.prems data_processor.Process_context_free by force
  with Cons show ?case by (auto split: sum.splits)
qed simp

section \<open>Concrete requests\<close>

text \<open>Two outputs of which the second fails, and a handler for them.\<close>

definition sample_ops :: "(string, unit) output_ops" where
  "sample_ops = \<lparr>Op_Send = (\<lambda>out ctx data. (if out = ''b'' then Some (Errors_New ''down'') else None, ())),
     Op_Name = (\<lambda>out. ''https://'' @ out)\<rparr>"

definition sample_handler :: "string list \<Rightarrow> string Handler" where
  "sample_handler gs = \<lparr>h_logger = Logger [] [], processors = [], guaranteedOutputs = gs,
     bestEffortOutputs = [''c''], shutdownCtx = context_Background, bestEffortWg = 0\<rparr>"

definition sample_hstate :: "string list \<Rightarrow> (string, unit) handler_state" where
  "sample_hstate gs = \<lparr>hs_handler = sample_handler gs, hs_metrics = no_metrics, hs_log = [], hs_sends = [],
     hs_tasks = [], hs_next = 0\<rparr>"

definition sample_request :: http_request where
  "sample_request = \<lparr>r_ctx = context_Background, r_body = Inr ''{}''\<rparr>"

definition sample_writer :: response_writer where
  "sample_writer = \<lparr>rw_header = [], rw_wire = None, rw_body = [], rw_write_err = None\<rparr>"

lemmas sample_serve_defs = sample_ops_def sample_handler_def sample_hstate_def sample_request_def
  request_ok_def failure_message_def request_data_def all_sent_def send_err_def

lemma sample_valid: "valid_schedule [''a'', ''b''] \<lparr>report_order = [''b'', ''a''], arrival_order = [''a'', ''b'']\<rparr>"
  by (simp add: valid_schedule_def)

theorem ServeHTTP_response_witness:
  "rw_wire (fst (ServeHTTP sample_ops ''1'' \<lparr>report_order = [''b'', ''a''], arrival_order = [''a'', ''b'']\<rparr>
      sample_request sample_writer (sample_hstate [''a'', ''b''])))
     = Some (500, [(''Content-Type'', ''application/json'')])"
  using ServeHTTP_response [of "sample_handler [''a'', ''b'']"
      "\<lparr>report_order = [''b'', ''a''], arrival_order = [''a'', ''b'']\<rparr>"
      "sample_hstate [''a'', ''b'']" "[''c'']" sample_writer sample_ops "''1''" sample_request]
  by (simp add: sample_serve_defs sample_writer_def valid_schedule_def)


definition sample_exchange :: "(string, unit) exchange" where
  "sample_exchange = \<lparr>ex_ops = sample_ops, ex_id = ''1'',
     ex_sched = \<lparr>report_order = [''b'', ''a''], arrival_order = [''a'', ''b'']\<rparr>,
     ex_req = sample_request, ex_writer = sample_writer\<rparr>"

theorem serve_seq_accounting_witness:
  "\<exists>ws st'. serve_seq [sample_exchange, sample_exchange] (sample_hstate [''a'', ''b'']) = (ws, st')
    \<and> AuditReceived (hs_metrics st') = 2
    \<and> length (filter (answered 200) ws) + length (filter (answered 500) ws) = 2"
proof -
  obtain ws st' where s:
    "serve_seq [sample_exchange, sample_exchange] (sample_hstate [''a'', ''b'']) = (ws, st')" by fastforce
  have "\<forall>x\<in>set [sample_exchange, sample_exchange].
      valid_schedule (guaranteedOutputs (hs_handler (sample_hstate [''a'', ''b'']))) (ex_sched x)
      \<and> fresh_writer (ex_writer x)"
    using sample_valid
    by (simp add: sample_exchange_def sample_hstate_def sample_handler_def fresh_writer_def sample_writer_def)
  from serve_seq_accounting [OF s this] s show ?thesis by (simp add: sample_hstate_def no_metrics_def)
qed

theorem ServeHTTP_output_counters_witness:
  "\<exists>w' st'. ServeHTTP sample_ops ''1'' \<lparr>report_order = [''b'', ''a''], arrival_order = [''a'', ''b'']\<rparr>
      sample_request sample_writer (sample_hstate [''a'', ''b'']) = (w', st')
    \<and> OutputFailed (hs_metrics st') (''https://b'', DeliveryModeGuaranteed) = 1"
proof -
  have v: "valid_schedule (guaranteedOutputs (hs_handler (sample_hstate [''a'', ''b''])))
      \<lparr>report_order = [''b'', ''a''], arrival_order = [''a'', ''b'']\<rparr>"
    by (simp add: valid_schedule_def sample_serve_defs)
  obtain w' st' where s: "ServeHTTP sample_ops ''1'' \<lparr>report_order = [''b'', ''a''], arrival_order = [''a'', ''b'']\<rparr>
      sample_request sample_writer (sample_hstate [''a'', ''b'']) = (w', st')" by fastforce
  from ServeHTTP_output_counters [OF s v, of "''https://b''" DeliveryModeGuaranteed] s show ?thesis
    by (simp add: sample_serve_defs no_metrics_def)
qed

end
