(* ===== verification/StepSystem.thy ===== *)
theory StepSystem
  imports Prelude
begin

text \<open>
  Two interfaces that the concurrent parts of the program share. A \<open>step_system\<close> is a step relation with an
  invariant and a bound on the work that is left, which every step decreases; a \<open>progressing_system\<close> never
  stops before a final state. The fan-out of a request, the two servers of the command, the function that
  runs one server and the closing of a watcher are each shown to be such systems, and get from here that
  the invariant holds in every reachable state, that runs are short, and that they can be completed.
\<close>

locale step_system =
  fixes step :: "'s \<Rightarrow> 's \<Rightarrow> bool" and inv :: "'s \<Rightarrow> bool" and work :: "'s \<Rightarrow> nat"
  assumes inv_step: "inv s \<Longrightarrow> step s s' \<Longrightarrow> inv s'"
    and work_step: "inv s \<Longrightarrow> step s s' \<Longrightarrow> work s' < work s"
begin

lemma reach_inv:
  assumes "step\<^sup>*\<^sup>* s s'" and "inv s"
  shows "inv s'"
  using assms by (induction rule: rtranclp_induct) (auto intro: inv_step)

lemma runs_short:
  assumes "(step ^^ k) s s'" and "inv s"
  shows "k + work s' \<le> work s"
  using assms
proof (induction k arbitrary: s')
  case (Suc k)
  then obtain s1 where s1: "(step ^^ k) s s1" "step s1 s'" by auto
  have "inv s1" using relpowp_imp_rtranclp [OF s1(1)] Suc.prems(2) by (rule reach_inv)
  with Suc.IH [OF s1(1) Suc.prems(2)] work_step [OF _ s1(2)] show ?case by simp
qed simp

lemma no_long_run:
  assumes "inv s" and "work s < k"
  shows "\<not> (\<exists>s'. (step ^^ k) s s')"
  using runs_short [of k s] assms by fastforce

end

locale progressing_system = step_system step inv work
  for step :: "'s \<Rightarrow> 's \<Rightarrow> bool" and inv :: "'s \<Rightarrow> bool" and work :: "'s \<Rightarrow> nat" +
  fixes final :: "'s \<Rightarrow> bool"
  assumes progress: "inv s \<Longrightarrow> \<not> final s \<Longrightarrow> \<exists>s'. step s s'"
begin

lemma completes:
  assumes "inv s"
  shows "\<exists>s'. step\<^sup>*\<^sup>* s s' \<and> inv s' \<and> final s'"
  using assms
proof (induction "work s" arbitrary: s rule: less_induct)
  case less
  show ?case
  proof (cases "final s")
    case False
    with progress less.prems obtain s1 where s1: "step s s1" by blast
    with less.hyps [of s1] inv_step [OF less.prems s1] work_step [OF less.prems s1]
    show ?thesis by (meson converse_rtranclp_into_rtranclp)
  qed (use less.prems in blast)
qed

end

end
