(* ===== verification/FanOut.thy ===== *)
theory FanOut
  imports Handler StepSystem
begin

text \<open>
  The goroutines of \<^verbatim>\<open>forwardToGuaranteedOutputs\<close> (\<^verbatim>\<open>src/internal/handler/audit/handler.go\<close>) as a step
  relation: the caller starts one goroutine per output, then waits; each goroutine calls \<^verbatim>\<open>Send\<close>, logs
  and meters the outcome, puts an error into the buffered channel (blocking while it is full) and calls
  \<^verbatim>\<open>wg.Done\<close>; steps of different goroutines interleave freely.

  The lemmas show that every interleaving ends, that nobody ever blocks, and that the result is one the
  function \<^const>\<open>forwardToGuaranteedOutputs\<close> gives for some schedule: the sequential model of the
  concurrent code is justified.
\<close>

section \<open>Steps\<close>

datatype gphase = GNotStarted | GSending | GReport go_error | GFinishing | GExited

datatype fan_main = MainSpawn nat | MainWait | MainDone err

record fan_state =
  fan_phase :: "nat \<Rightarrow> gphase"
  fan_main :: fan_main
  errCh :: "go_error list"
  fan_wg :: nat
  fan_metrics :: metrics
  fan_log :: "log_entry list"

definition fan_init :: "metrics \<Rightarrow> log_entry list \<Rightarrow> fan_state" where
  "fan_init m lg = \<lparr>fan_phase = (\<lambda>_. GNotStarted), fan_main = MainSpawn 0, errCh = [], fan_wg = 0,
     fan_metrics = m, fan_log = lg\<rparr>"

text \<open>What surrounds one fan-out: the methods of the outputs and the arguments of the call.\<close>

record ('o, 'w) fan_env =
  fe_ops :: "('o, 'w) output_ops"
  fe_ctx :: go_context
  fe_data :: bytes
  fe_log :: logger
  fe_outputs :: "'o list"

abbreviation fe_send :: "('o, 'w) fan_env \<Rightarrow> nat \<Rightarrow> err" where
  "fe_send E i \<equiv> send_err (fe_ops E) (fe_ctx E) (fe_data E) (fe_outputs E ! i)"

inductive fan_step :: "('o, 'w) fan_env \<Rightarrow> fan_state \<Rightarrow> fan_state \<Rightarrow> bool" for E where
  fan_spawn: "fan_main s = MainSpawn k \<Longrightarrow> k < length (fe_outputs E) \<Longrightarrow>
    fan_step E s (s\<lparr>fan_phase := (fan_phase s)(k := GSending), fan_wg := fan_wg s + 1,
                    fan_main := MainSpawn (Suc k)\<rparr>)"
| fan_wait: "fan_main s = MainSpawn (length (fe_outputs E)) \<Longrightarrow> fan_step E s (s\<lparr>fan_main := MainWait\<rparr>)"
| fan_sent_ok: "i < length (fe_outputs E) \<Longrightarrow> fan_phase s i = GSending \<Longrightarrow> fe_send E i = None \<Longrightarrow>
    fan_step E s (s\<lparr>fan_phase := (fan_phase s)(i := GFinishing),
      fan_metrics := OutputSucceeded_Inc (Op_Name (fe_ops E) (fe_outputs E ! i)) DeliveryModeGuaranteed
        (fan_metrics s)\<rparr>)"
| fan_sent_err: "i < length (fe_outputs E) \<Longrightarrow> fan_phase s i = GSending \<Longrightarrow> fe_send E i = Some e \<Longrightarrow>
    logAndMeterOutputErr (fe_ops E) (fe_log E) (fe_outputs E ! i) e (fan_metrics s, fan_log s) = (e', m, lg) \<Longrightarrow>
    fan_step E s (s\<lparr>fan_phase := (fan_phase s)(i := GReport e'), fan_metrics := m, fan_log := lg\<rparr>)"
| fan_put: "i < length (fe_outputs E) \<Longrightarrow> fan_phase s i = GReport e \<Longrightarrow>
    length (errCh s) < length (fe_outputs E) \<Longrightarrow>
    fan_step E s (s\<lparr>fan_phase := (fan_phase s)(i := GFinishing), errCh := errCh s @ [e]\<rparr>)"
| fan_done: "i < length (fe_outputs E) \<Longrightarrow> fan_phase s i = GFinishing \<Longrightarrow>
    fan_step E s (s\<lparr>fan_phase := (fan_phase s)(i := GExited), fan_wg := fan_wg s - 1\<rparr>)"
| fan_return: "fan_main s = MainWait \<Longrightarrow> fan_wg s = 0 \<Longrightarrow>
    fan_step E s (s\<lparr>fan_main := MainDone (guaranteed_result (errCh s))\<rparr>)"

inductive_cases fan_stepE: "fan_step E s s'"

section \<open>Sums over goroutines\<close>

text \<open>
  Every quantity of the fan-out is a sum of what each goroutine contributes in its phase; a step changes
  one summand.
\<close>

definition total :: "nat \<Rightarrow> (nat \<Rightarrow> 'p \<Rightarrow> 'a::comm_monoid_add) \<Rightarrow> (nat \<Rightarrow> 'p) \<Rightarrow> 'a" where
  "total n f ph = (\<Sum>j<n. f j (ph j))"

lemma total_split: "i < n \<Longrightarrow> total n f ph = f i (ph i) + (\<Sum>j\<in>{..<n} - {i}. f j (ph j))"
  by (simp add: total_def sum.remove)

lemma total_upd: "i < n \<Longrightarrow> total n f (ph(i := p)) = f i p + (\<Sum>j\<in>{..<n} - {i}. f j (ph j))"
  by (simp add: total_split)

definition live :: "nat \<Rightarrow> gphase \<Rightarrow> nat" where
  "live i p = (case p of GSending \<Rightarrow> 1 | GReport e \<Rightarrow> 1 | GFinishing \<Rightarrow> 1 | _ \<Rightarrow> 0)"

definition work_left :: "nat \<Rightarrow> gphase \<Rightarrow> nat" where
  "work_left i p = (case p of GNotStarted \<Rightarrow> 4 | GSending \<Rightarrow> 3 | GReport e \<Rightarrow> 2 | GFinishing \<Rightarrow> 1 | GExited \<Rightarrow> 0)"

text \<open>The error goroutine \<open>i\<close> reports, the errors it has put into the channel and the lines it has logged.\<close>

definition fail_of :: "('o, 'w) fan_env \<Rightarrow> nat \<Rightarrow> go_error option" where
  "fail_of E i = map_option (output_failed_err (fe_ops E) (fe_outputs E ! i)) (fe_send E i)"

definition put_errs :: "('o, 'w) fan_env \<Rightarrow> nat \<Rightarrow> gphase \<Rightarrow> go_error multiset" where
  "put_errs E i p =
     (if p = GFinishing \<or> p = GExited then mset (somes [fail_of E i]) else {#})"

definition logged :: "('o, 'w) fan_env \<Rightarrow> nat \<Rightarrow> gphase \<Rightarrow> log_entry multiset" where
  "logged E i p =
     (if p = GNotStarted \<or> p = GSending then {#}
      else mset (map (\<lambda>e. LogError (fe_log E) e ''Failed to forward to Guaranteed output''
                   [(''output'', Op_Name (fe_ops E) (fe_outputs E ! i))]) (somes [fe_send E i])))"

definition metered :: "('o, 'w) fan_env \<Rightarrow> string \<Rightarrow> bool \<Rightarrow> nat \<Rightarrow> gphase \<Rightarrow> nat" where
  "metered E name ok i p =
     (if p \<noteq> GNotStarted \<and> p \<noteq> GSending \<and> Op_Name (fe_ops E) (fe_outputs E ! i) = name
         \<and> (fe_send E i = None) = ok then 1 else 0)"

definition main_left :: "fan_main \<Rightarrow> nat" where
  "main_left m = (case m of MainSpawn k \<Rightarrow> 2 | MainWait \<Rightarrow> 1 | MainDone r \<Rightarrow> 0)"

definition fan_work :: "('o, 'w) fan_env \<Rightarrow> fan_state \<Rightarrow> nat" where
  "fan_work E s = total (length (fe_outputs E)) work_left (fan_phase s) + main_left (fan_main s)"

section \<open>Invariant\<close>

definition phases_ok :: "('o, 'w) fan_env \<Rightarrow> fan_state \<Rightarrow> bool" where
  "phases_ok E s \<longleftrightarrow>
     (\<forall>i < length (fe_outputs E).
        (\<forall>e. fan_phase s i = GReport e \<longrightarrow> fail_of E i = Some e)
      \<and> (fan_phase s i = GNotStarted \<longleftrightarrow> (\<exists>k\<le>i. fan_main s = MainSpawn k)))
   \<and> (\<forall>k. fan_main s = MainSpawn k \<longrightarrow> k \<le> length (fe_outputs E))"

definition fan_inv :: "('o, 'w) fan_env \<Rightarrow> metrics \<Rightarrow> log_entry list \<Rightarrow> fan_state \<Rightarrow> bool" where
  "fan_inv E m lg s \<longleftrightarrow>
     (let n = length (fe_outputs E)
      in phases_ok E s
       \<and> fan_wg s = total n live (fan_phase s)
       \<and> mset (errCh s) = total n (put_errs E) (fan_phase s)
       \<and> length lg \<le> length (fan_log s) \<and> take (length lg) (fan_log s) = lg
       \<and> mset (drop (length lg) (fan_log s)) = total n (logged E) (fan_phase s)
       \<and> AuditReceived (fan_metrics s) = AuditReceived m
       \<and> AuditSucceeded (fan_metrics s) = AuditSucceeded m
       \<and> AuditFailed (fan_metrics s) = AuditFailed m
       \<and> (\<forall>name mode. OutputSucceeded (fan_metrics s) (name, mode) = OutputSucceeded m (name, mode)
            + (if mode = DeliveryModeGuaranteed then total n (metered E name True) (fan_phase s) else 0))
       \<and> (\<forall>name mode. OutputFailed (fan_metrics s) (name, mode) = OutputFailed m (name, mode)
            + (if mode = DeliveryModeGuaranteed then total n (metered E name False) (fan_phase s) else 0))
       \<and> (\<forall>r. fan_main s = MainDone r \<longrightarrow> fan_wg s = 0 \<and> r = guaranteed_result (errCh s)))"


lemma total_const_zero: "(\<And>i. i < n \<Longrightarrow> f i (ph i) = 0) \<Longrightarrow> total n f ph = 0"
  by (simp add: total_def)

lemma total_live_zero: "total n live ph = 0 \<Longrightarrow> i < n \<Longrightarrow> live i (ph i) = 0"
  by (simp add: total_def)

lemma fan_init_inv: "fan_inv E m lg (fan_init m lg)"
  by (auto simp: fan_inv_def fan_init_def phases_ok_def Let_def total_def live_def put_errs_def logged_def
      metered_def)

lemma phases_ok_step:
  assumes "fan_step E s s'" and "phases_ok E s"
  shows "phases_ok E s'"
  using assms
proof (cases rule: fan_step.cases)
  case (fan_spawn k)
  with assms(2) show ?thesis
    by (auto simp: phases_ok_def)
qed (auto simp: phases_ok_def logAndMeterOutputErr_def fail_of_def)

text \<open>
  A step of goroutine \<open>i\<close> changes the sums of the invariant at \<open>i\<close> only, and happens while the caller waits.
\<close>

lemmas goroutine_defs = live_def put_errs_def logged_def metered_def

lemma not_done_while_live:
  assumes "fan_inv E m lg s" and "i < length (fe_outputs E)" and "live i (fan_phase s i) \<noteq> 0"
  shows "fan_main s \<noteq> MainDone r"
  using assms total_live_zero [of "length (fe_outputs E)" "fan_phase s" i] by (auto simp: fan_inv_def Let_def)

lemma fan_inv_sent_err:
  assumes "fan_inv E m lg s" and "i < length (fe_outputs E)" and "fan_phase s i = GSending" and "fe_send E i = Some e"
    and "logAndMeterOutputErr (fe_ops E) (fe_log E) (fe_outputs E ! i) e (fan_metrics s, fan_log s) = (e', m', lg')"
    and "s' = s\<lparr>fan_phase := (fan_phase s)(i := GReport e'), fan_metrics := m', fan_log := lg'\<rparr>" and "phases_ok E s'"
  shows "fan_inv E m lg s'"
proof -
  have nd: "fan_main s \<noteq> MainDone r" for r using assms(3) by (intro not_done_while_live [OF assms(1,2)]) (simp add: live_def)
  from assms(5) have l: "m' = OutputFailed_Inc (Op_Name (fe_ops E) (fe_outputs E ! i)) DeliveryModeGuaranteed (fan_metrics s)"
    "lg' = fan_log s @ [LogError (fe_log E) e ''Failed to forward to Guaranteed output''
       [(''output'', Op_Name (fe_ops E) (fe_outputs E ! i))]]"
    by (auto simp: logAndMeterOutputErr_def)
  from assms(1-4,6,7) nd show ?thesis
    by (simp add: l fan_inv_def Let_def total_split [OF assms(2), of _ "fan_phase s"] total_upd [OF assms(2)]
        goroutine_defs fail_of_def OutputFailed_Inc_def inc_label_apply)
qed

lemma fan_inv_step:
  assumes st: "fan_step E s s'" and inv: "fan_inv E m lg s"
  shows "fan_inv E m lg s'"
proof -
  have ph: "phases_ok E s" using inv by (simp add: fan_inv_def Let_def)
  have ph': "phases_ok E s'" using st ph by (rule phases_ok_step)
  note nd = not_done_while_live [OF inv]
  from st show ?thesis
  proof (cases rule: fan_step.cases)
    case (fan_spawn k)
    then have "fan_phase s k = GNotStarted" using ph by (auto simp: phases_ok_def)
    with fan_spawn inv ph' show ?thesis
      by (simp add: fan_inv_def Let_def total_split [OF fan_spawn(3), of _ "fan_phase s"]
          total_upd [OF fan_spawn(3)] goroutine_defs)
  next
    case (fan_sent_ok i)
    with nd [of i] inv ph' show ?thesis
      by (simp add: fan_inv_def Let_def total_split [OF fan_sent_ok(2), of _ "fan_phase s"] total_upd [OF fan_sent_ok(2)]
          goroutine_defs fail_of_def OutputSucceeded_Inc_def inc_label_apply)
  next
    case (fan_sent_err i e e' m' lg')
    from inv fan_sent_err(2-5,1) ph' show ?thesis by (rule fan_inv_sent_err)
  next
    case (fan_put i e)
    have e: "fail_of E i = Some e" using ph fan_put(2,3) by (simp add: phases_ok_def)
    then have "fe_send E i \<noteq> None" by (auto simp: fail_of_def)
    with fan_put nd [of i] inv ph' e show ?thesis
      by (simp add: fan_inv_def Let_def total_split [OF fan_put(2), of _ "fan_phase s"] total_upd [OF fan_put(2)]
          goroutine_defs)
  next
    case (fan_done i)
    with nd [of i] inv ph' show ?thesis
      by (simp add: fan_inv_def Let_def total_split [OF fan_done(2), of _ "fan_phase s"] total_upd [OF fan_done(2)]
          goroutine_defs)
  qed (use inv ph' in \<open>simp_all add: fan_inv_def Let_def\<close>)
qed

lemma fan_work_step:
  assumes "fan_step E s s'" and "phases_ok E s"
  shows "fan_work E s' < fan_work E s"
  using assms
proof (cases rule: fan_step.cases)
  case (fan_spawn k)
  then have "fan_phase s k = GNotStarted" using assms(2) by (auto simp: phases_ok_def)
  with fan_spawn show ?thesis
    by (simp add: fan_work_def total_split [OF fan_spawn(3), of _ "fan_phase s"]
        total_upd [OF fan_spawn(3)] work_left_def main_left_def)
qed (simp_all add: fan_work_def total_split [of _ _ _ "fan_phase s"] total_upd work_left_def main_left_def)


interpretation fan: step_system "fan_step E" "fan_inv E m lg" "fan_work E" for E m lg
proof unfold_locales
  fix s s'
  assume "fan_inv E m lg s" and "fan_step E s s'"
  moreover from this have "phases_ok E s" by (simp add: fan_inv_def Let_def)
  ultimately show "fan_inv E m lg s'" "fan_work E s' < fan_work E s" by (auto intro: fan_inv_step fan_work_step)
qed

lemma fan_reach_inv: "(fan_step E)\<^sup>*\<^sup>* (fan_init m lg) s \<Longrightarrow> fan_inv E m lg s"
  using fan_init_inv by (rule fan.reach_inv [rotated])

section \<open>Nobody blocks\<close>

lemma size_total: "size (total n (put_errs E) ph) = total n (\<lambda>i p. size (put_errs E i p)) ph"
  unfolding total_def by (induction n) simp_all

lemma size_put_errs: "size (put_errs E i p) \<le> 1"
  by (cases "fail_of E i") (simp_all add: put_errs_def)

lemma channel_not_full:
  assumes "fan_inv E m lg s" and "i < length (fe_outputs E)" and "fan_phase s i = GReport e"
  shows "length (errCh s) < length (fe_outputs E)"
proof -
  let ?n = "length (fe_outputs E)"
  have "mset (errCh s) = total ?n (put_errs E) (fan_phase s)"
    using assms(1) by (simp add: fan_inv_def Let_def)
  then have "length (errCh s) = total ?n (\<lambda>i p. size (put_errs E i p)) (fan_phase s)"
    by (metis size_mset size_total)
  also have "\<dots> = (\<Sum>j\<in>{..<?n} - {i}. size (put_errs E j (fan_phase s j)))"
    using assms(2,3) by (simp add: total_split put_errs_def)
  also have "\<dots> \<le> (\<Sum>j\<in>{..<?n} - {i}. 1)" by (rule sum_mono) (rule size_put_errs)
  also have "\<dots> < ?n" using assms(2) by simp
  finally show ?thesis .
qed

lemma goroutine_progress:
  assumes "fan_inv E m lg s" and "i < length (fe_outputs E)" and "live i (fan_phase s i) \<noteq> 0"
  shows "\<exists>s'. fan_step E s s' \<and> fan_phase s' i \<noteq> fan_phase s i"
proof (cases "fan_phase s i")
  case GSending
  show ?thesis
  proof (cases "fe_send E i")
    case None
    from fan_sent_ok [OF assms(2) GSending None] GSending show ?thesis by (intro exI conjI) auto
  next
    case (Some e)
    from fan_sent_err [OF assms(2) GSending Some] GSending show ?thesis
      unfolding logAndMeterOutputErr_def by (intro exI conjI) auto
  qed
next
  case (GReport e)
  from fan_put [OF assms(2) GReport channel_not_full [OF assms(1,2) GReport]] GReport
  show ?thesis by (intro exI conjI) auto
next
  case GFinishing
  from fan_done [OF assms(2) GFinishing] GFinishing show ?thesis by (intro exI conjI) auto
qed (use assms(3) in \<open>simp_all add: live_def\<close>)

lemma fan_progress:
  assumes "fan_inv E m lg s" and "\<And>r. fan_main s \<noteq> MainDone r"
  shows "\<exists>s'. fan_step E s s'"
proof (cases "fan_main s")
  case (MainSpawn k)
  then have "k \<le> length (fe_outputs E)"
    using assms(1) by (simp add: fan_inv_def phases_ok_def Let_def)
  then show ?thesis
    using MainSpawn fan_spawn [of s k E] fan_wait [of s E] by (cases "k = length (fe_outputs E)") auto
next
  case MainWait
  show ?thesis
  proof (cases "fan_wg s")
    case 0
    with MainWait fan_return [of s E] show ?thesis by blast
  next
    case (Suc k)
    then have "total (length (fe_outputs E)) live (fan_phase s) \<noteq> 0"
      using assms(1) by (simp add: fan_inv_def Let_def)
    then obtain i where "i < length (fe_outputs E)" "live i (fan_phase s i) \<noteq> 0"
      by (meson total_const_zero)
    with goroutine_progress [OF assms(1)] show ?thesis by blast
  qed
qed (use assms(2) in simp)

section \<open>The result\<close>

lemma map_perm:
  "mset es = mset (map f xs) \<Longrightarrow> \<exists>ys. mset ys = mset xs \<and> map f ys = es"
proof (induction es arbitrary: xs)
  case (Cons e es)
  then have "e \<in> set (map f xs)" by (metis list.set_intros(1) mset_eq_setD)
  then obtain a xs1 xs2 where xs: "xs = xs1 @ a # xs2" "f a = e" by (auto dest: split_list)
  with Cons.prems have "mset es = mset (map f (xs1 @ xs2))" by simp
  from Cons.IH [OF this] obtain ys where "mset ys = mset (xs1 @ xs2)" "map f ys = es" by blast
  with xs show ?case by (intro exI [of _ "a # ys"]) simp
qed simp

lemma map_filter_perm:
  assumes "mset es = mset (List.map_filter g xs)"
  shows "\<exists>ys. mset ys = mset xs \<and> List.map_filter g ys = es"
proof -
  let ?P = "\<lambda>x. g x \<noteq> None"
  have mf: "List.map_filter g zs = map (\<lambda>x. the (g x)) (filter ?P zs)" for zs
    by (simp add: List.map_filter_def o_def)
  from map_perm [OF assms [unfolded mf]] obtain ys where
    ys: "mset ys = mset (filter ?P xs)" "map (\<lambda>x. the (g x)) ys = es" by blast
  have "\<forall>y\<in>set ys. ?P y" using mset_eq_setD [OF ys(1)] by auto
  then have "filter ?P ys = ys" by (simp add: filter_id_conv)
  moreover have "filter ?P (filter (\<lambda>x. \<not> ?P x) xs) = []" by (auto simp: filter_empty_conv)
  moreover have "mset (ys @ filter (\<lambda>x. \<not> ?P x) xs) = mset xs" by (simp add: ys(1))
  ultimately show ?thesis
    using ys(2) by (intro exI [of _ "ys @ filter (\<lambda>x. \<not> ?P x) xs"]) (simp add: mf)
qed

lemma sum_somes: "(\<Sum>j<length xs. mset (somes [h (xs ! j)])) = mset (List.map_filter h xs)"
  by (induction xs) (auto simp: sum.lessThan_Suc_shift map_filter_simps simp del: sum.lessThan_Suc split: option.splits)

lemma sum_marks:
  "(\<Sum>j<length xs. if f (xs ! j) = k then 1 else 0) = count (mset (map f xs)) k"
  by (induction xs) (simp_all add: sum.lessThan_Suc_shift del: sum.lessThan_Suc)


lemma fan_done_phases:
  assumes "fan_inv E m lg s" and "fan_main s = MainDone r" and "i < length (fe_outputs E)"
  shows "fan_phase s i = GExited"
proof -
  have "total (length (fe_outputs E)) live (fan_phase s) = 0" "fan_phase s i \<noteq> GNotStarted"
    using assms by (auto simp: fan_inv_def phases_ok_def Let_def)
  with total_live_zero [OF this(1) assms(3)] show ?thesis
    by (cases "fan_phase s i") (simp_all add: live_def)
qed

lemma total_done:
  assumes "fan_inv E m lg s" and "fan_main s = MainDone r"
  shows "total (length (fe_outputs E)) f (fan_phase s) = (\<Sum>j<length (fe_outputs E). f j GExited)"
  unfolding total_def using fan_done_phases [OF assms] by (intro sum.cong) simp_all

definition failure_line :: "('o, 'w) fan_env \<Rightarrow> 'o \<Rightarrow> log_entry option" where
  "failure_line E out = map_option (\<lambda>e. LogError (fe_log E) e ''Failed to forward to Guaranteed output''
     [(''output'', Op_Name (fe_ops E) out)]) (send_err (fe_ops E) (fe_ctx E) (fe_data E) out)"

lemma report_guaranteed_log:
  "snd (fold (report_guaranteed (fe_ops E) (fe_ctx E) (fe_data E) (fe_log E)) os ml)
     = snd ml @ List.map_filter (failure_line E) os"
  by (induction os arbitrary: ml)
     (auto simp: report_guaranteed_def logAndMeterOutputErr_def failure_line_def map_filter_simps
       split: option.splits)

lemma fan_done_errs:
  assumes "fan_inv E m lg s" and "fan_main s = MainDone r"
  shows "mset (errCh s) = mset (channel_errs (fe_ops E) (fe_ctx E) (fe_data E) (fe_outputs E))"
proof -
  have "mset (errCh s) = (\<Sum>j<length (fe_outputs E). put_errs E j GExited)"
    using assms(1) total_done [OF assms] by (simp add: fan_inv_def Let_def)
  also have "\<dots> = (\<Sum>j<length (fe_outputs E). mset (somes [fail_of E j]))"
    by (simp add: put_errs_def)
  finally show ?thesis
    unfolding fail_of_def channel_errs_def
    using sum_somes [of "\<lambda>out. map_option (output_failed_err (fe_ops E) out)
      (send_err (fe_ops E) (fe_ctx E) (fe_data E) out)" "fe_outputs E"] by simp
qed

lemma fan_done_log:
  assumes "fan_inv E m lg s" and "fan_main s = MainDone r"
  obtains lines where "fan_log s = lg @ lines"
    and "mset lines = mset (List.map_filter (failure_line E) (fe_outputs E))"
proof -
  have "mset (drop (length lg) (fan_log s)) = (\<Sum>j<length (fe_outputs E). logged E j GExited)"
    using assms(1) total_done [OF assms] by (simp add: fan_inv_def Let_def)
  also have "\<dots> = (\<Sum>j<length (fe_outputs E). mset (somes [failure_line E (fe_outputs E ! j)]))"
    by (rule sum.cong) (auto simp: logged_def failure_line_def somes_def map_filter_simps split: option.splits)
  finally have "mset (drop (length lg) (fan_log s)) = mset (List.map_filter (failure_line E) (fe_outputs E))"
    by (simp add: sum_somes)
  moreover have "fan_log s = lg @ drop (length lg) (fan_log s)"
    using assms(1) by (metis append_take_drop_id fan_inv_def)
  ultimately show ?thesis using that by blast
qed

lemma fan_done_metrics:
  assumes "fan_inv E m lg s" and "fan_main s = MainDone r"
  shows "fan_metrics s = fold (meter_send DeliveryModeGuaranteed)
    (send_marks (fe_ops E) (fe_ctx E) (fe_data E) (fe_outputs E)) m" (is "_ = fold _ ?marks m")
proof -
  have c: "(\<Sum>j<length (fe_outputs E). metered E name ok j GExited) = count (mset ?marks) (name, ok)" for name ok
    using sum_marks [of "\<lambda>out. (Op_Name (fe_ops E) out, send_err (fe_ops E) (fe_ctx E) (fe_data E) out = None)"
        "fe_outputs E" "(name, ok)"]
    by (simp add: metered_def send_marks_def)
  note i = assms(1) [unfolded fan_inv_def Let_def total_done [OF assms] c]
  show ?thesis
  proof (rule metrics.equality)
    show "OutputSucceeded (fan_metrics s) = OutputSucceeded (fold (meter_send DeliveryModeGuaranteed) ?marks m)"
      using i by (auto simp: fun_eq_iff fold_meter_send_counts)
    show "OutputFailed (fan_metrics s) = OutputFailed (fold (meter_send DeliveryModeGuaranteed) ?marks m)"
      using i by (auto simp: fun_eq_iff fold_meter_send_counts)
  qed (use i in simp_all)
qed

interpretation fan_run: progressing_system "fan_step E" "fan_inv E m lg" "fan_work E" "\<lambda>s. \<exists>r. fan_main s = MainDone r"
  for E m lg
  by unfold_locales (blast intro: fan_progress)

lemma fan_completes:
  assumes "(fan_step E)\<^sup>*\<^sup>* (fan_init m lg) s"
  shows "\<exists>s' r. (fan_step E)\<^sup>*\<^sup>* s s' \<and> fan_main s' = MainDone r"
  using fan_run.completes [OF fan_reach_inv [OF assms]] by blast

section \<open>Properties\<close>

text \<open>
  Property C7. Every interleaving of the fan-out ends and none gets stuck: for \<open>n\<close> outputs there are at
  most \<open>4 n + 2\<close> steps; until the caller has returned some step is possible, in particular every
  goroutine that has started and not finished can go on by itself (its error always fits into the
  channel); and once the caller has returned, all goroutines are gone.
\<close>

theorem fan_out_terminates:
  assumes "(fan_step E)\<^sup>*\<^sup>* (fan_init m lg) s"
  shows "\<not> (\<exists>s'. (fan_step E ^^ (4 * length (fe_outputs E) + 3)) (fan_init m lg) s')
    \<and> ((\<exists>r. fan_main s = MainDone r) \<longleftrightarrow> \<not> (\<exists>s'. fan_step E s s'))
    \<and> (\<forall>i < length (fe_outputs E). live i (fan_phase s i) = 1 \<longrightarrow>
         (\<exists>s'. fan_step E s s' \<and> fan_phase s' i \<noteq> fan_phase s i))
    \<and> ((\<exists>r. fan_main s = MainDone r) \<longrightarrow> fan_wg s = 0
         \<and> (\<forall>i < length (fe_outputs E). fan_phase s i = GExited))"
proof -
  have inv: "fan_inv E m lg s" using assms by (rule fan_reach_inv)
  have init: "fan_work E (fan_init m lg) = 4 * length (fe_outputs E) + 2"
    by (simp add: fan_work_def fan_init_def total_def work_left_def main_left_def)
  have stuck: "\<not> fan_step E s s'" if "fan_main s = MainDone r" for r s'
    using that fan_done_phases [OF inv that] by (auto elim!: fan_stepE)
  have "\<not> (\<exists>s'. (fan_step E ^^ (4 * length (fe_outputs E) + 3)) (fan_init m lg) s')"
    by (rule fan.no_long_run [OF fan_init_inv]) (simp add: init)
  moreover have "fan_wg s = 0 \<and> (\<forall>i < length (fe_outputs E). fan_phase s i = GExited)"
    if "fan_main s = MainDone r" for r
    using that fan_done_phases [OF inv that] inv by (simp add: fan_inv_def Let_def)
  moreover have "\<exists>s'. fan_step E s s' \<and> fan_phase s' i \<noteq> fan_phase s i"
    if "i < length (fe_outputs E)" "live i (fan_phase s i) = 1" for i
    using goroutine_progress [OF inv that(1)] that(2) by simp
  ultimately show ?thesis using stuck fan_progress [OF inv] by blast
qed

text \<open>
  Property C6. Whatever the interleaving, the concurrent fan-out returns what the function
  \<^const>\<open>forwardToGuaranteedOutputs\<close> returns for some order of reports and of errors, with the same counters
  and the same log; in particular it returns nil exactly when every send did.
\<close>

theorem fan_out_refines:
  assumes "(fan_step E)\<^sup>*\<^sup>* (fan_init m lg) s" and "fan_main s = MainDone r"
    and "length (fe_outputs E) \<noteq> 1"
  shows "(\<exists>sched. valid_schedule (fe_outputs E) sched
      \<and> forwardToGuaranteedOutputs (fe_ops E) sched (fe_ctx E) (fe_data E) (fe_outputs E) (fe_log E) (m, lg)
          = (r, fan_metrics s, fan_log s))
    \<and> (r = None \<longleftrightarrow> all_sent (fe_ops E) (fe_ctx E) (fe_data E) (fe_outputs E))"
proof -
  have inv: "fan_inv E m lg s" using assms(1) by (rule fan_reach_inv)
  have r: "r = guaranteed_result (errCh s)" using inv assms(2) by (simp add: fan_inv_def Let_def)
  obtain arr where arr: "mset arr = mset (fe_outputs E)"
      "channel_errs (fe_ops E) (fe_ctx E) (fe_data E) arr = errCh s"
    using map_filter_perm [OF fan_done_errs [OF inv assms(2), unfolded channel_errs_def]]
    unfolding channel_errs_def by blast
  obtain lines where lines: "fan_log s = lg @ lines"
      "mset lines = mset (List.map_filter (failure_line E) (fe_outputs E))"
    using fan_done_log [OF inv assms(2)] by blast
  from map_filter_perm [OF lines(2)] obtain rep where
    rep: "mset rep = mset (fe_outputs E)" "List.map_filter (failure_line E) rep = lines" by blast
  let ?sched = "\<lparr>report_order = rep, arrival_order = arr\<rparr>"
  let ?f = "forwardToGuaranteedOutputs (fe_ops E) ?sched (fe_ctx E) (fe_data E) (fe_outputs E) (fe_log E) (m, lg)"
  have v: "valid_schedule (fe_outputs E) ?sched" by (simp add: valid_schedule_def arr rep)
  have "?f = (r, fan_metrics s, fan_log s)"
  proof (intro prod_eqI)
    show "fst ?f = fst (r, fan_metrics s, fan_log s)"
      using assms(3) by (simp add: forwardToGuaranteedOutputs_def arr r)
    show "fst (snd ?f) = fst (snd (r, fan_metrics s, fan_log s))"
      using forward_metrics [OF v, of "fe_ops E" "fe_ctx E" "fe_data E" "fe_log E" "(m, lg)"]
        fan_done_metrics [OF inv assms(2)] by simp
    show "snd (snd ?f) = snd (snd (r, fan_metrics s, fan_log s))"
      using assms(3) by (simp add: forwardToGuaranteedOutputs_def report_guaranteed_log lines rep)
  qed
  with v forward_None_iff [OF v, of "fe_ops E" "fe_ctx E" "fe_data E" "fe_log E" "(m, lg)"] show ?thesis
    by (metis fst_conv)
qed


section \<open>A concrete run\<close>

text \<open>Two outputs of which the second fails; its goroutine finishes first.\<close>

definition sample_fan :: "(string, unit) fan_env" where
  "sample_fan = \<lparr>fe_ops = sample_ops, fe_ctx = context_Background, fe_data = ''{}'', fe_log = Discard,
     fe_outputs = [''a'', ''b'']\<rparr>"

theorem fan_out_terminates_witness:
  "\<not> (\<exists>s'. (fan_step sample_fan ^^ 11) (fan_init no_metrics []) s')"
  using fan_out_terminates [of sample_fan no_metrics "[]" "fan_init no_metrics []"]
  by (simp add: sample_fan_def)

theorem fan_out_refines_witness:
  "\<exists>s r. (fan_step sample_fan)\<^sup>*\<^sup>* (fan_init no_metrics []) s \<and> fan_main s = MainDone r \<and> r \<noteq> None"
proof -
  from fan_completes [OF rtranclp.rtrancl_refl] obtain s r where s: "(fan_step sample_fan)\<^sup>*\<^sup>* (fan_init no_metrics []) s"
    "fan_main s = MainDone r" by blast
  from fan_out_refines [OF s] have "r = None \<longleftrightarrow> all_sent sample_ops context_Background ''{}'' [''a'', ''b'']"
    by (simp add: sample_fan_def)
  then have "r \<noteq> None" by (simp add: all_sent_def sample_ops_def send_err_def)
  with s show ?thesis by blast
qed

end
