(* ===== verification/BestEffort.thy ===== *)
theory BestEffort
  imports FanOut
begin

text \<open>
  The goroutines of \<^verbatim>\<open>forwardToBestEffortOutputs\<close> (\<^verbatim>\<open>src/internal/handler/audit/handler.go\<close>) as a step relation:
  one goroutine per output, each of which calls \<^verbatim>\<open>Send\<close> with the logger in the context, logs the outcome, meters
  it and calls \<^verbatim>\<open>wg.Done\<close>, while the caller waits. Logging and metering are separate steps, so another goroutine
  may log in between.

  The lemmas show that every interleaving ends, and that it leaves the counters and the log that the function
  \<^const>\<open>forwardToBestEffortOutputs\<close> leaves for some order of reports.
\<close>

section \<open>Steps\<close>

datatype bphase = BNotStarted | BSending | BMetering | BFinishing | BExited

datatype be_main = BESpawn nat | BEWait | BEDone

record be_state =
  be_phase :: "nat \<Rightarrow> bphase"
  be_main :: be_main
  be_wg :: nat
  be_metrics :: metrics
  be_log :: "log_entry list"

definition be_init :: "metrics \<Rightarrow> log_entry list \<Rightarrow> be_state" where
  "be_init m lg = \<lparr>be_phase = (\<lambda>_. BNotStarted), be_main = BESpawn 0, be_wg = 0, be_metrics = m, be_log = lg\<rparr>"

text \<open>The outcome of goroutine \<open>i\<close>, the line it logs and what it counts.\<close>

definition be_send :: "('o, 'w) fan_env \<Rightarrow> 'o \<Rightarrow> err" where
  "be_send E out = send_err (fe_ops E) (WithLogger (fe_ctx E) (fe_log E)) (fe_data E) out"

definition be_line :: "('o, 'w) fan_env \<Rightarrow> 'o \<Rightarrow> log_entry" where
  "be_line E out =
     (case be_send E out of
        Some e \<Rightarrow> LogError (fe_log E) e ''Failed to forward to BestEffort output'' [(''output'', Op_Name (fe_ops E) out)]
      | None \<Rightarrow> LogInfo (fe_log E) ''Successfully forwarded to BestEffort output'' [(''output'', Op_Name (fe_ops E) out)])"

definition be_meter :: "('o, 'w) fan_env \<Rightarrow> 'o \<Rightarrow> metrics \<Rightarrow> metrics" where
  "be_meter E out m =
     (case be_send E out of
        Some e \<Rightarrow> OutputFailed_Inc (Op_Name (fe_ops E) out) DeliveryModeBestEffort m
      | None \<Rightarrow> OutputSucceeded_Inc (Op_Name (fe_ops E) out) DeliveryModeBestEffort m)"

inductive be_step :: "('o, 'w) fan_env \<Rightarrow> be_state \<Rightarrow> be_state \<Rightarrow> bool" for E where
  be_spawn: "be_main s = BESpawn k \<Longrightarrow> k < length (fe_outputs E) \<Longrightarrow>
    be_step E s (s\<lparr>be_phase := (be_phase s)(k := BSending), be_wg := be_wg s + 1, be_main := BESpawn (Suc k)\<rparr>)"
| be_wait: "be_main s = BESpawn (length (fe_outputs E)) \<Longrightarrow> be_step E s (s\<lparr>be_main := BEWait\<rparr>)"
| be_sent: "i < length (fe_outputs E) \<Longrightarrow> be_phase s i = BSending \<Longrightarrow>
    be_step E s (s\<lparr>be_phase := (be_phase s)(i := BMetering), be_log := be_log s @ [be_line E (fe_outputs E ! i)]\<rparr>)"
| be_metered: "i < length (fe_outputs E) \<Longrightarrow> be_phase s i = BMetering \<Longrightarrow>
    be_step E s (s\<lparr>be_phase := (be_phase s)(i := BFinishing), be_metrics := be_meter E (fe_outputs E ! i) (be_metrics s)\<rparr>)"
| be_finish: "i < length (fe_outputs E) \<Longrightarrow> be_phase s i = BFinishing \<Longrightarrow>
    be_step E s (s\<lparr>be_phase := (be_phase s)(i := BExited), be_wg := be_wg s - 1\<rparr>)"
| be_return: "be_main s = BEWait \<Longrightarrow> be_wg s = 0 \<Longrightarrow> be_step E s (s\<lparr>be_main := BEDone\<rparr>)"

inductive_cases be_stepE: "be_step E s s'"

section \<open>Invariant\<close>

definition b_live :: "nat \<Rightarrow> bphase \<Rightarrow> nat" where
  "b_live i p = (if p = BNotStarted \<or> p = BExited then 0 else 1)"

definition b_work :: "nat \<Rightarrow> bphase \<Rightarrow> nat" where
  "b_work i p = (case p of BNotStarted \<Rightarrow> 4 | BSending \<Rightarrow> 3 | BMetering \<Rightarrow> 2 | BFinishing \<Rightarrow> 1 | BExited \<Rightarrow> 0)"

definition b_lines :: "('o, 'w) fan_env \<Rightarrow> nat \<Rightarrow> bphase \<Rightarrow> log_entry multiset" where
  "b_lines E i p = (if p = BNotStarted \<or> p = BSending then {#} else {#be_line E (fe_outputs E ! i)#})"

definition b_mark :: "('o, 'w) fan_env \<Rightarrow> 'o \<Rightarrow> string \<times> bool" where
  "b_mark E out = (Op_Name (fe_ops E) out, be_send E out = None)"

definition b_marks :: "('o, 'w) fan_env \<Rightarrow> nat \<Rightarrow> bphase \<Rightarrow> (string \<times> bool) multiset" where
  "b_marks E i p = (if p = BFinishing \<or> p = BExited then {#b_mark E (fe_outputs E ! i)#} else {#})"

definition be_work :: "('o, 'w) fan_env \<Rightarrow> be_state \<Rightarrow> nat" where
  "be_work E s = total (length (fe_outputs E)) b_work (be_phase s)
     + (case be_main s of BESpawn k \<Rightarrow> 2 | BEWait \<Rightarrow> 1 | BEDone \<Rightarrow> 0)"

definition be_inv :: "('o, 'w) fan_env \<Rightarrow> metrics \<Rightarrow> log_entry list \<Rightarrow> be_state \<Rightarrow> bool" where
  "be_inv E m lg s \<longleftrightarrow>
     (\<forall>i < length (fe_outputs E). be_phase s i = BNotStarted \<longleftrightarrow> (\<exists>k\<le>i. be_main s = BESpawn k))
   \<and> (\<forall>k. be_main s = BESpawn k \<longrightarrow> k \<le> length (fe_outputs E))
   \<and> be_wg s = total (length (fe_outputs E)) b_live (be_phase s)
   \<and> (be_main s = BEDone \<longrightarrow> be_wg s = 0)
   \<and> (\<exists>lines. be_log s = lg @ lines \<and> mset lines = total (length (fe_outputs E)) (b_lines E) (be_phase s))
   \<and> (\<exists>marks. be_metrics s = fold (meter_send DeliveryModeBestEffort) marks m
        \<and> mset marks = total (length (fe_outputs E)) (b_marks E) (be_phase s))"

lemmas b_defs = b_live_def b_lines_def b_marks_def

lemma be_init_inv: "be_inv E m lg (be_init m lg)"
  by (auto simp: be_inv_def be_init_def total_def b_defs)

lemma be_meter_mark: "be_meter E out m = meter_send DeliveryModeBestEffort (b_mark E out) m"
  by (auto simp: be_meter_def b_mark_def meter_send_def split: option.splits)

lemma b_live_not_done:
  assumes "be_inv E m lg s" and "i < length (fe_outputs E)" and "b_live i (be_phase s i) \<noteq> 0"
  shows "be_main s \<noteq> BEDone"
  using assms by (auto simp: be_inv_def total_split)

lemma be_inv_step:
  assumes "be_step E s s'" and inv: "be_inv E m lg s"
  shows "be_inv E m lg s'"
  using assms(1)
proof (cases rule: be_step.cases)
  case (be_spawn k)
  then have "be_phase s k = BNotStarted" using inv by (auto simp: be_inv_def)
  with be_spawn inv show ?thesis
    by (auto simp: be_inv_def total_split [OF be_spawn(3), of _ "be_phase s"] total_upd [OF be_spawn(3)] b_defs)
next
  case (be_sent i)
  have "be_main s \<noteq> BEDone" using be_sent by (intro b_live_not_done [OF inv, of i]) (simp_all add: b_live_def)
  with be_sent inv show ?thesis
    by (auto simp: be_inv_def total_split [OF be_sent(2), of _ "be_phase s"] total_upd [OF be_sent(2)] b_defs)
next
  case (be_metered i)
  have nd: "be_main s \<noteq> BEDone" using be_metered by (intro b_live_not_done [OF inv, of i]) (simp_all add: b_live_def)
  from inv obtain marks where marks: "be_metrics s = fold (meter_send DeliveryModeBestEffort) marks m"
    "mset marks = total (length (fe_outputs E)) (b_marks E) (be_phase s)" by (auto simp: be_inv_def)
  from inv have wg: "be_wg s = total (length (fe_outputs E)) b_live (be_phase s)"
    "\<exists>lines. be_log s = lg @ lines \<and> mset lines = total (length (fe_outputs E)) (b_lines E) (be_phase s)"
    by (simp_all add: be_inv_def)
  let ?marks = "marks @ [b_mark E (fe_outputs E ! i)]"
  have "be_metrics s' = fold (meter_send DeliveryModeBestEffort) ?marks m"
    "mset ?marks = total (length (fe_outputs E)) (b_marks E) (be_phase s')"
    using be_metered marks
    by (simp_all add: be_meter_mark total_split [OF be_metered(2), of _ "be_phase s"] total_upd [OF be_metered(2)] b_marks_def)
  moreover have "be_wg s' = total (length (fe_outputs E)) b_live (be_phase s')"
    "\<exists>lines. be_log s' = lg @ lines \<and> mset lines = total (length (fe_outputs E)) (b_lines E) (be_phase s')"
    using be_metered wg
    by (simp_all add: total_split [OF be_metered(2), of _ "be_phase s"] total_upd [OF be_metered(2)] b_live_def b_lines_def)
  moreover have "\<forall>i < length (fe_outputs E). be_phase s' i = BNotStarted \<longleftrightarrow> (\<exists>k\<le>i. be_main s' = BESpawn k)"
    "\<forall>k. be_main s' = BESpawn k \<longrightarrow> k \<le> length (fe_outputs E)" "be_main s' \<noteq> BEDone"
    using be_metered inv nd by (auto simp: be_inv_def)
  ultimately show ?thesis unfolding be_inv_def by blast
next
  case (be_finish i)
  have "be_main s \<noteq> BEDone" using be_finish by (intro b_live_not_done [OF inv, of i]) (simp_all add: b_live_def)
  with be_finish inv show ?thesis
    by (auto simp: be_inv_def total_split [OF be_finish(2), of _ "be_phase s"] total_upd [OF be_finish(2)] b_defs)
qed (use inv in \<open>auto simp: be_inv_def\<close>)

lemma be_work_step:
  assumes "be_step E s s'" and "be_inv E m lg s"
  shows "be_work E s' < be_work E s"
  using assms
proof (cases rule: be_step.cases)
  case (be_spawn k)
  then have "be_phase s k = BNotStarted" using assms(2) by (auto simp: be_inv_def)
  with be_spawn show ?thesis
    by (simp add: be_work_def total_split [OF be_spawn(3), of _ "be_phase s"] total_upd [OF be_spawn(3)] b_work_def)
qed (simp_all add: be_work_def total_split [of _ _ _ "be_phase s"] total_upd b_work_def)

lemma be_progress:
  assumes inv: "be_inv E m lg s" and "be_main s \<noteq> BEDone"
  shows "\<exists>s'. be_step E s s'"
proof (cases "be_main s")
  case (BESpawn k)
  then have "k \<le> length (fe_outputs E)" using inv by (simp add: be_inv_def)
  then show ?thesis using BESpawn be_spawn [of s k E] be_wait [of s E] by (cases "k = length (fe_outputs E)") auto
next
  case BEWait
  show ?thesis
  proof (cases "be_wg s = 0")
    case True
    with BEWait be_return [of s E] show ?thesis by blast
  next
    case False
    with inv obtain i where "i < length (fe_outputs E)" "b_live i (be_phase s i) \<noteq> 0"
      by (metis be_inv_def total_const_zero)
    then show ?thesis
      using be_sent [of i E s] be_metered [of i E s] be_finish [of i E s] by (cases "be_phase s i") (auto simp: b_live_def)
  qed
qed (use assms(2) in simp)

interpretation be: progressing_system "be_step E" "be_inv E m lg" "be_work E" "\<lambda>s. be_main s = BEDone" for E m lg
  by unfold_locales (blast intro: be_inv_step be_work_step be_progress)+

lemma be_reach_inv: "(be_step E)\<^sup>*\<^sup>* (be_init m lg) s \<Longrightarrow> be_inv E m lg s"
  using be_init_inv by (rule be.reach_inv [rotated])

section \<open>The result\<close>

lemma be_done_exited:
  assumes "be_inv E m lg s" and "be_main s = BEDone" and "i < length (fe_outputs E)"
  shows "be_phase s i = BExited"
proof -
  have "b_live i (be_phase s i) = 0" "be_phase s i \<noteq> BNotStarted" using assms by (auto simp: be_inv_def total_def)
  then show ?thesis by (auto simp: b_live_def split: if_splits)
qed

lemma be_total_done:
  assumes "be_inv E m lg s" and "be_main s = BEDone" and "\<And>i. f i BExited = {#g (fe_outputs E ! i)#}"
  shows "total (length (fe_outputs E)) f (be_phase s) = mset (map g (fe_outputs E))"
proof -
  have "total (length (fe_outputs E)) f (be_phase s) = (\<Sum>j<length (fe_outputs E). {#g (fe_outputs E ! j)#})"
    unfolding total_def using be_done_exited [OF assms(1,2)] assms(3) by (intro sum.cong) simp_all
  also have "\<dots> = mset (map g xs)" if "xs = fe_outputs E" for xs
    unfolding that [symmetric] by (induction xs) (simp_all add: sum.lessThan_Suc_shift del: sum.lessThan_Suc)
  finally show ?thesis by simp
qed

lemma report_best_effort_log:
  "snd (fold (report_best_effort (fe_ops E) (WithLogger (fe_ctx E) (fe_log E)) (fe_data E) (fe_log E)) os ml)
     = snd ml @ map (be_line E) os"
  by (induction os arbitrary: ml) (auto simp: report_best_effort_def be_line_def be_send_def split: option.splits)

section \<open>Properties\<close>

text \<open>
  Property C8. Whatever the interleaving of its goroutines, forwarding to the best-effort outputs ends, after at most
  \<open>4 n + 2\<close> steps for \<open>n\<close> outputs and with every goroutine gone, and leaves the counters and the log that
  \<^const>\<open>forwardToBestEffortOutputs\<close> leaves for some order of reports: each output is sent to, logged and counted
  exactly once.
\<close>

theorem best_effort_refines:
  assumes "(be_step E)\<^sup>*\<^sup>* (be_init m lg) s"
  shows "\<not> (\<exists>s'. (be_step E ^^ (4 * length (fe_outputs E) + 3)) (be_init m lg) s')
    \<and> (\<exists>s'. (be_step E)\<^sup>*\<^sup>* s s' \<and> be_main s' = BEDone)
    \<and> (be_main s = BEDone \<longrightarrow> (\<forall>i < length (fe_outputs E). be_phase s i = BExited)
        \<and> (\<exists>reports. mset reports = mset (fe_outputs E)
            \<and> forwardToBestEffortOutputs (fe_ops E) reports (fe_ctx E) (fe_data E) (fe_log E) (m, lg)
                = (be_metrics s, be_log s)))"
proof -
  have inv: "be_inv E m lg s" using assms by (rule be_reach_inv)
  have "be_work E (be_init m lg) = 4 * length (fe_outputs E) + 2"
    by (simp add: be_work_def be_init_def total_def b_work_def)
  then have short: "\<not> (\<exists>s'. (be_step E ^^ (4 * length (fe_outputs E) + 3)) (be_init m lg) s')"
    by (intro be.no_long_run [OF be_init_inv]) simp
  have "\<exists>reports. mset reports = mset (fe_outputs E)
      \<and> forwardToBestEffortOutputs (fe_ops E) reports (fe_ctx E) (fe_data E) (fe_log E) (m, lg) = (be_metrics s, be_log s)"
    if d: "be_main s = BEDone"
  proof -
    from inv obtain lines marks where l: "be_log s = lg @ lines" "mset lines = mset (map (be_line E) (fe_outputs E))"
      and k: "be_metrics s = fold (meter_send DeliveryModeBestEffort) marks m" "mset marks = mset (map (b_mark E) (fe_outputs E))"
      using be_total_done [OF inv d, of "b_lines E" "be_line E"] be_total_done [OF inv d, of "b_marks E" "b_mark E"]
      by (auto simp: be_inv_def b_lines_def b_marks_def)
    from map_perm [OF l(2)] obtain rep where rep: "mset rep = mset (fe_outputs E)" "map (be_line E) rep = lines" by blast
    have marks: "send_marks (fe_ops E) (WithLogger (fe_ctx E) (fe_log E)) (fe_data E) rep = map (b_mark E) rep"
      by (simp add: send_marks_def b_mark_def be_send_def)
    have "mset (map (b_mark E) rep) = mset marks" using k(2) rep(1) by simp
    from fold_meter_send_perm [OF this] have
      "forwardToBestEffortOutputs (fe_ops E) rep (fe_ctx E) (fe_data E) (fe_log E) (m, lg) = (be_metrics s, be_log s)"
      unfolding forwardToBestEffortOutputs_def
      by (intro prod_eqI) (simp_all add: report_best_effort_metrics report_best_effort_log marks k(1) l(1) rep(2))
    with rep(1) show ?thesis by blast
  qed
  with short be.completes [OF inv] be_done_exited [OF inv] show ?thesis by blast
qed

theorem best_effort_refines_witness:
  "\<exists>s reports. (be_step sample_fan)\<^sup>*\<^sup>* (be_init no_metrics []) s \<and> be_main s = BEDone
     \<and> mset reports = mset [''a'', ''b'']
     \<and> forwardToBestEffortOutputs sample_ops reports context_Background ''{}'' Discard (no_metrics, []) = (be_metrics s, be_log s)"
proof -
  obtain s where s: "(be_step sample_fan)\<^sup>*\<^sup>* (be_init no_metrics []) s" "be_main s = BEDone"
    using be.completes [OF be_init_inv] by blast
  with best_effort_refines [OF s(1)] show ?thesis by (auto simp: sample_fan_def)
qed

end
