(* ===== verification/Requests.thy ===== *)
theory Requests
  imports Handler
begin

text \<open>
  Concurrent requests: \<^verbatim>\<open>net/http\<close> calls \<^verbatim>\<open>ServeHTTP\<close> (\<^verbatim>\<open>src/internal/handler/audit/handler.go\<close>) in a goroutine of its
  own for every request, so requests, the goroutines of their fan-outs and best-effort goroutines interleave between any
  two accesses to what they share: the counters, the log and the wait group.

  A request is a thread with a phase; its steps are \<open>req_step\<close>, those of a best-effort goroutine \<open>task_step\<close>, each on the
  thread and the shared counters and log; \<open>conc_step\<close> interleaves them. What a \<^verbatim>\<open>Send\<close> returns is up to the environment
  (and so is the cancellation of contexts, which is visible only in that). Each thread records what its sends returned.

  The lemmas show that the response of a request is the one the sequential \<^const>\<open>ServeHTTP\<close> gives for the outcomes of
  its own sends, whatever the others do, that a request never waits for another one, and that the counters account for
  every request and every send at every moment.
\<close>

section \<open>Threads\<close>

text \<open>
  A request is reading its body, running the processors, forwarding (the outputs whose \<^verbatim>\<open>Send\<close> has not returned, the
  errors that goroutines are about to put into the channel, the channel), starting the best-effort goroutine, writing
  the response, counting it, or done; from the decision on with the message of the error response, if it is one.
\<close>

datatype 'o request_phase =
    RqReading
  | RqProcessing bytes
  | RqForwarding bytes "'o list" "go_error list" "go_error list"
  | RqSpawning bytes
  | RqReplying "string option"
  | RqMetering "string option"
  | RqDone "string option"

record 'o request_thread =
  rq_id :: string
  rq_in :: http_request
  rq_fresh :: response_writer
  rq_w :: response_writer
  rq_phase :: "'o request_phase"
  rq_reports :: "('o \<times> err) list"

text \<open>A best-effort goroutine: outputs still sending, outcomes logged and not yet counted, outcomes counted.\<close>

record 'o task_thread =
  tt_log :: logger
  tt_pending :: "'o list"
  tt_metering :: "('o \<times> err) list"
  tt_reports :: "('o \<times> err) list"
  tt_gone :: bool

section \<open>Steps of a request\<close>

text \<open>What the caller of the fan-out gets when all goroutines are done; a single output is sent to directly.\<close>

definition forward_result :: "'o list \<Rightarrow> go_error list \<Rightarrow> err" where
  "forward_result outputs ch =
     (if length outputs = 1 then (case ch of [] \<Rightarrow> None | e # es \<Rightarrow> Some e) else guaranteed_result ch)"

type_synonym shared = "metrics \<times> log_entry list"

inductive req_step ::
    "('o \<Rightarrow> string) \<Rightarrow> 'o Handler \<Rightarrow> 'o request_thread \<times> shared \<Rightarrow> 'o request_thread \<times> shared \<Rightarrow> bool" for name h where
  req_read_failed: "rq_phase t = RqReading \<Longrightarrow> r_body (rq_in t) = Inl e \<Longrightarrow>
    req_step name h (t, m, lg) (t\<lparr>rq_phase := RqReplying (Some ''failed reading body request'')\<rparr>, m,
      lg @ [LogError (request_log h (rq_id t)) e ''Reading request body'' []])"
| req_read: "rq_phase t = RqReading \<Longrightarrow> r_body (rq_in t) = Inr body \<Longrightarrow>
    req_step name h (t, m, lg) (t\<lparr>rq_phase := RqProcessing body\<rparr>, m,
      lg @ [LogInfo (request_log h (rq_id t)) ''Received audit events'' []])"
| req_process_failed: "rq_phase t = RqProcessing body \<Longrightarrow>
    process_all (processors h) (request_ctx h (rq_id t) (rq_in t)) body = Inl (e, p) \<Longrightarrow>
    req_step name h (t, m, lg) (t\<lparr>rq_phase := RqReplying (Some ''failed processing audit events'')\<rparr>, m,
      lg @ [LogError (request_log h (rq_id t)) e ''Processing audit events'' [(''processor'', p)]])"
| req_process: "rq_phase t = RqProcessing body \<Longrightarrow>
    process_all (processors h) (request_ctx h (rq_id t) (rq_in t)) body = Inr data \<Longrightarrow>
    req_step name h (t, m, lg) (t\<lparr>rq_phase := RqForwarding data (guaranteedOutputs h) [] []\<rparr>, m, lg)"
| req_sent: "rq_phase t = RqForwarding data (os1 @ out # os2) rep ch \<Longrightarrow>
    req_step name h (t, m, lg) (t\<lparr>rq_phase := RqForwarding data (os1 @ os2) rep ch, rq_reports := rq_reports t @ [(out, None)]\<rparr>,
      OutputSucceeded_Inc (name out) DeliveryModeGuaranteed m, lg)"
| req_send_failed: "rq_phase t = RqForwarding data (os1 @ out # os2) rep ch \<Longrightarrow>
    req_step name h (t, m, lg) (t\<lparr>rq_phase := RqForwarding data (os1 @ os2)
        (rep @ [wrapf (''output '' @ name out @ '' failed: '') e]) ch, rq_reports := rq_reports t @ [(out, Some e)]\<rparr>,
      OutputFailed_Inc (name out) DeliveryModeGuaranteed m,
      lg @ [LogError (request_log h (rq_id t)) e ''Failed to forward to Guaranteed output'' [(''output'', name out)]])"
| req_put: "rq_phase t = RqForwarding data os (rep1 @ e # rep2) ch \<Longrightarrow>
    req_step name h (t, m, lg) (t\<lparr>rq_phase := RqForwarding data os (rep1 @ rep2) (ch @ [e])\<rparr>, m, lg)"
| req_joined: "rq_phase t = RqForwarding data [] [] ch \<Longrightarrow> forward_result (guaranteedOutputs h) ch = None \<Longrightarrow>
    req_step name h (t, m, lg) (t\<lparr>rq_phase := RqSpawning data\<rparr>, m, lg)"
| req_forward_failed: "rq_phase t = RqForwarding data [] [] ch \<Longrightarrow> forward_result (guaranteedOutputs h) ch = Some e \<Longrightarrow>
    req_step name h (t, m, lg) (t\<lparr>rq_phase := RqReplying (Some ''failed forwarding audit events'')\<rparr>, m,
      lg @ [LogError (request_log h (rq_id t)) e ''Failed to forward audit events to Guaranteed outputs'' []])"
| req_reply_ok: "rq_phase t = RqReplying None \<Longrightarrow>
    req_step name h (t, m, lg) (t\<lparr>rq_w := WriteHeader 200 (rq_w t), rq_phase := RqMetering None\<rparr>, m,
      lg @ [LogInfo (request_log h (rq_id t)) ''Forwarded audit events to Guaranteed outputs'' []])"
| req_reply_failed: "rq_phase t = RqReplying (Some msg) \<Longrightarrow>
    writeErrorResponse (WriteHeader 500 (header_Set ''Content-Type'' ''application/json'' (rq_w t)))
      (request_log h (rq_id t)) 500 msg = (w', logs) \<Longrightarrow>
    req_step name h (t, m, lg) (t\<lparr>rq_w := w', rq_phase := RqMetering (Some msg)\<rparr>, m, lg @ logs)"
| req_meter_ok: "rq_phase t = RqMetering None \<Longrightarrow>
    req_step name h (t, m, lg) (t\<lparr>rq_phase := RqDone None\<rparr>, AuditSucceeded_Inc m, lg)"
| req_meter_failed: "rq_phase t = RqMetering (Some msg) \<Longrightarrow>
    req_step name h (t, m, lg) (t\<lparr>rq_phase := RqDone (Some msg)\<rparr>, AuditFailed_Inc m, lg)"

text \<open>The steps of a best-effort goroutine up to its \<^verbatim>\<open>wg.Wait\<close>: one output's goroutine logs, or counts.\<close>

inductive task_step :: "('o \<Rightarrow> string) \<Rightarrow> 'o task_thread \<times> shared \<Rightarrow> 'o task_thread \<times> shared \<Rightarrow> bool" for name where
  task_sent: "tt_pending t = os1 @ out # os2 \<Longrightarrow>
    task_step name (t, m, lg) (t\<lparr>tt_pending := os1 @ os2, tt_metering := tt_metering t @ [(out, e)]\<rparr>, m,
      lg @ [case e of
              Some e \<Rightarrow> LogError (tt_log t) e ''Failed to forward to BestEffort output'' [(''output'', name out)]
            | None \<Rightarrow> LogInfo (tt_log t) ''Successfully forwarded to BestEffort output'' [(''output'', name out)]])"
| task_metered: "tt_metering t = ms1 @ (out, e) # ms2 \<Longrightarrow>
    task_step name (t, m, lg) (t\<lparr>tt_metering := ms1 @ ms2, tt_reports := tt_reports t @ [(out, e)]\<rparr>,
      case e of
        Some _ \<Rightarrow> OutputFailed_Inc (name out) DeliveryModeBestEffort m
      | None \<Rightarrow> OutputSucceeded_Inc (name out) DeliveryModeBestEffort m, lg)"

section \<open>Interleaving\<close>

record 'o conc_state =
  cn_shared :: shared
  cn_requests :: "'o request_thread list"
  cn_tasks :: "'o task_thread list"
  cn_wg :: nat

definition conc_init :: "metrics \<Rightarrow> 'o conc_state" where
  "conc_init m = \<lparr>cn_shared = (m, []), cn_requests = [], cn_tasks = [], cn_wg = 0\<rparr>"

inductive conc_step :: "('o \<Rightarrow> string) \<Rightarrow> 'o Handler \<Rightarrow> 'o conc_state \<Rightarrow> 'o conc_state \<Rightarrow> bool" for name h where
  conc_arrive: "fresh_writer w \<Longrightarrow> cn_shared s = (m, lg) \<Longrightarrow>
    conc_step name h s (s\<lparr>cn_shared := (AuditReceived_Inc m, lg),
      cn_requests := cn_requests s @ [\<lparr>rq_id = i, rq_in = r, rq_fresh = w, rq_w = w, rq_phase = RqReading, rq_reports = []\<rparr>]\<rparr>)"
| conc_request: "i < length (cn_requests s) \<Longrightarrow> req_step name h (cn_requests s ! i, cn_shared s) (t', sh') \<Longrightarrow>
    conc_step name h s (s\<lparr>cn_shared := sh', cn_requests := (cn_requests s)[i := t']\<rparr>)"
| conc_spawn: "i < length (cn_requests s) \<Longrightarrow> rq_phase (cn_requests s ! i) = RqSpawning data \<Longrightarrow>
    bestEffortOutputs h \<noteq> [] \<Longrightarrow>
    conc_step name h s (s\<lparr>cn_requests := (cn_requests s)[i := (cn_requests s ! i)\<lparr>rq_phase := RqReplying None\<rparr>],
      cn_wg := cn_wg s + 1,
      cn_tasks := cn_tasks s @ [\<lparr>tt_log = request_log h (rq_id (cn_requests s ! i)), tt_pending = bestEffortOutputs h,
        tt_metering = [], tt_reports = [], tt_gone = False\<rparr>]\<rparr>)"
| conc_no_spawn: "i < length (cn_requests s) \<Longrightarrow> rq_phase (cn_requests s ! i) = RqSpawning data \<Longrightarrow>
    bestEffortOutputs h = [] \<Longrightarrow>
    conc_step name h s (s\<lparr>cn_requests := (cn_requests s)[i := (cn_requests s ! i)\<lparr>rq_phase := RqReplying None\<rparr>]\<rparr>)"
| conc_task: "i < length (cn_tasks s) \<Longrightarrow> \<not> tt_gone (cn_tasks s ! i) \<Longrightarrow>
    task_step name (cn_tasks s ! i, cn_shared s) (t', sh') \<Longrightarrow>
    conc_step name h s (s\<lparr>cn_shared := sh', cn_tasks := (cn_tasks s)[i := t']\<rparr>)"
| conc_task_done: "i < length (cn_tasks s) \<Longrightarrow> \<not> tt_gone (cn_tasks s ! i) \<Longrightarrow> tt_pending (cn_tasks s ! i) = [] \<Longrightarrow>
    tt_metering (cn_tasks s ! i) = [] \<Longrightarrow>
    conc_step name h s (s\<lparr>cn_tasks := (cn_tasks s)[i := (cn_tasks s ! i)\<lparr>tt_gone := True\<rparr>], cn_wg := cn_wg s - 1\<rparr>)"

inductive_cases conc_stepE: "conc_step name h s s'"

section \<open>What a request has decided\<close>

definition all_nil :: "('o \<times> err) list \<Rightarrow> bool" where
  "all_nil reports \<longleftrightarrow> (\<forall>r\<in>set reports. snd r = None)"

definition decided :: "'o Handler \<Rightarrow> 'o request_thread \<Rightarrow> string option \<Rightarrow> bool" where
  "decided h t d \<longleftrightarrow>
     (case request_data h (rq_id t) (rq_in t) of
        Inl msg \<Rightarrow> d = Some msg \<and> rq_reports t = []
      | Inr data \<Rightarrow> mset (map fst (rq_reports t)) = mset (guaranteedOutputs h)
          \<and> d = (if all_nil (rq_reports t) then None else Some ''failed forwarding audit events''))"

definition reply :: "string option \<Rightarrow> response_writer \<Rightarrow> response_writer" where
  "reply d w = (case d of None \<Rightarrow> w\<lparr>rw_wire := Some (200, rw_header w)\<rparr> | Some msg \<Rightarrow> error_response msg w)"

definition thread_ok :: "'o Handler \<Rightarrow> 'o request_thread \<Rightarrow> bool" where
  "thread_ok h t \<longleftrightarrow> fresh_writer (rq_fresh t) \<and>
     (case rq_phase t of
        RqReading \<Rightarrow> rq_w t = rq_fresh t \<and> rq_reports t = []
      | RqProcessing body \<Rightarrow> rq_w t = rq_fresh t \<and> rq_reports t = [] \<and> r_body (rq_in t) = Inr body
      | RqForwarding data os rep ch \<Rightarrow> rq_w t = rq_fresh t \<and> request_data h (rq_id t) (rq_in t) = Inr data
          \<and> mset (map fst (rq_reports t)) + mset os = mset (guaranteedOutputs h)
          \<and> (rep = [] \<and> ch = [] \<longleftrightarrow> all_nil (rq_reports t))
      | RqSpawning data \<Rightarrow> rq_w t = rq_fresh t \<and> decided h t None
      | RqReplying d \<Rightarrow> rq_w t = rq_fresh t \<and> decided h t d
      | RqMetering d \<Rightarrow> rq_w t = reply d (rq_fresh t) \<and> decided h t d
      | RqDone d \<Rightarrow> rq_w t = reply d (rq_fresh t) \<and> decided h t d)"

lemma decided_upd [simp]:
  "decided h (t\<lparr>rq_w := w\<rparr>) d = decided h t d" "decided h (t\<lparr>rq_phase := p\<rparr>) d = decided h t d"
  by (simp_all add: decided_def split: sum.splits)

lemma forward_result_None: "forward_result outputs ch = None \<longleftrightarrow> ch = []"
  by (auto simp: forward_result_def guaranteed_result_def split: list.splits)

lemma forward_result_Nil [simp]: "forward_result outputs [] = None"
  by (simp add: forward_result_None)

lemma write_error_response:
  assumes "fresh_writer w"
    and "writeErrorResponse (WriteHeader 500 (header_Set ''Content-Type'' ''application/json'' w)) l 500 msg = (w', logs)"
  shows "w' = error_response msg w"
  using fail_request_writer [OF assms(1), of l msg] assms(2) by (simp add: fail_request_def Let_def)

lemma WriteHeader_fresh: "fresh_writer w \<Longrightarrow> WriteHeader 200 w = w\<lparr>rw_wire := Some (200, rw_header w)\<rparr>"
  by (simp add: WriteHeader_def fresh_writer_def)

lemma thread_ok_step:
  assumes "req_step name h (t, sh) (t', sh')" and "thread_ok h t"
  shows "thread_ok h t'"
  using assms(1)
proof cases
  case (req_process data m lg body)
  with assms(2) show ?thesis by (simp add: thread_ok_def request_data_def all_nil_def)
next
  case (req_reply_failed msg w' logs m lg)
  with assms(2) write_error_response [of "rq_w t" "request_log h (rq_id t)" msg w' logs] show ?thesis
    by (simp add: thread_ok_def reply_def)
next
  case (req_reply_ok m lg)
  with assms(2) show ?thesis by (simp add: thread_ok_def reply_def WriteHeader_fresh)
next
  case (req_meter_ok m lg)
  with assms(2) show ?thesis by (simp add: thread_ok_def)
next
  case (req_meter_failed msg m lg)
  with assms(2) show ?thesis by (simp add: thread_ok_def)
qed (use assms(2) in \<open>auto simp: thread_ok_def decided_def request_data_def all_nil_def forward_result_None split: sum.splits\<close>)

section \<open>Counting\<close>

text \<open>What one thread has contributed to each counter.\<close>

definition outcomes :: "('o \<Rightarrow> string) \<Rightarrow> string \<Rightarrow> bool \<Rightarrow> ('o \<times> err) list \<Rightarrow> nat" where
  "outcomes name n ok reports = length (filter (\<lambda>r. name (fst r) = n \<and> (snd r = None) = ok) reports)"

definition req_succeeded :: "'o request_thread \<Rightarrow> nat" where
  "req_succeeded t = (case rq_phase t of RqDone None \<Rightarrow> 1 | _ \<Rightarrow> 0)"

definition req_failed :: "'o request_thread \<Rightarrow> nat" where
  "req_failed t = (case rq_phase t of RqDone (Some msg) \<Rightarrow> 1 | _ \<Rightarrow> 0)"

definition out_counter :: "bool \<Rightarrow> metrics \<Rightarrow> string \<times> string \<Rightarrow> nat" where
  "out_counter ok m = (if ok then OutputSucceeded m else OutputFailed m)"

lemmas count_defs = outcomes_def req_succeeded_def req_failed_def out_counter_def inc_label_apply
  AuditReceived_Inc_def AuditSucceeded_Inc_def AuditFailed_Inc_def OutputSucceeded_Inc_def OutputFailed_Inc_def

lemma req_step_counts:
  assumes "req_step name h (t, sh) (t', sh')"
  shows "AuditReceived (fst sh') = AuditReceived (fst sh)"
    and "AuditSucceeded (fst sh') + req_succeeded t = AuditSucceeded (fst sh) + req_succeeded t'"
    and "AuditFailed (fst sh') + req_failed t = AuditFailed (fst sh) + req_failed t'"
    and "out_counter ok (fst sh') (n, DeliveryModeGuaranteed) + outcomes name n ok (rq_reports t)
       = out_counter ok (fst sh) (n, DeliveryModeGuaranteed) + outcomes name n ok (rq_reports t')"
    and "out_counter ok (fst sh') (n, DeliveryModeBestEffort) = out_counter ok (fst sh) (n, DeliveryModeBestEffort)"
  using assms by (cases; simp add: count_defs delivery_mode_defs)+

lemma task_step_counts:
  assumes "task_step name (t, sh) (t', sh')"
  shows "AuditReceived (fst sh') = AuditReceived (fst sh)" and "AuditSucceeded (fst sh') = AuditSucceeded (fst sh)"
    and "AuditFailed (fst sh') = AuditFailed (fst sh)"
    and "out_counter ok (fst sh') (n, DeliveryModeBestEffort) + outcomes name n ok (tt_reports t)
       = out_counter ok (fst sh) (n, DeliveryModeBestEffort) + outcomes name n ok (tt_reports t')"
    and "out_counter ok (fst sh') (n, DeliveryModeGuaranteed) = out_counter ok (fst sh) (n, DeliveryModeGuaranteed)"
  using assms by (cases; simp add: count_defs delivery_mode_defs split: option.splits)+

definition task_ok :: "'o Handler \<Rightarrow> 'o task_thread \<Rightarrow> bool" where
  "task_ok h t \<longleftrightarrow> mset (tt_pending t) + mset (map fst (tt_metering t)) + mset (map fst (tt_reports t)) = mset (bestEffortOutputs h)
     \<and> (tt_gone t \<longrightarrow> tt_pending t = [] \<and> tt_metering t = [])"

lemma task_ok_step:
  assumes "task_step name (t, sh) (t', sh')" and "task_ok h t" and "\<not> tt_gone t"
  shows "task_ok h t' \<and> \<not> tt_gone t'"
  using assms by (cases rule: task_step.cases) (auto simp: task_ok_def)

lemma sum_list_upd:
  fixes f :: "'a \<Rightarrow> nat"
  assumes "i < length xs"
  shows "sum_list (map f (xs[i := y])) + f (xs ! i) = sum_list (map f xs) + f y"
  using assms by (induction xs arbitrary: i) (auto split: nat.splits simp: nth_Cons)

text \<open>A counter that a step of one thread changes by what the thread contributes remains the sum over all.\<close>

lemma counter_upd:
  fixes f :: "'a \<Rightarrow> nat"
  assumes "i < length xs" and "c = c0 + sum_list (map f xs)" and "c' + f (xs ! i) = c + f y"
  shows "c' = c0 + sum_list (map f (xs[i := y]))"
  using assms(2,3) sum_list_upd [OF assms(1), of f y] by linarith

section \<open>Invariant\<close>

definition counted :: "('o \<Rightarrow> string) \<Rightarrow> metrics \<Rightarrow> 'o conc_state \<Rightarrow> bool" where
  "counted name m s \<longleftrightarrow>
     AuditReceived (fst (cn_shared s)) = AuditReceived m + length (cn_requests s)
   \<and> AuditSucceeded (fst (cn_shared s)) = AuditSucceeded m + sum_list (map req_succeeded (cn_requests s))
   \<and> AuditFailed (fst (cn_shared s)) = AuditFailed m + sum_list (map req_failed (cn_requests s))
   \<and> (\<forall>ok n. out_counter ok (fst (cn_shared s)) (n, DeliveryModeGuaranteed) = out_counter ok m (n, DeliveryModeGuaranteed)
        + sum_list (map (\<lambda>t. outcomes name n ok (rq_reports t)) (cn_requests s)))
   \<and> (\<forall>ok n. out_counter ok (fst (cn_shared s)) (n, DeliveryModeBestEffort) = out_counter ok m (n, DeliveryModeBestEffort)
        + sum_list (map (\<lambda>t. outcomes name n ok (tt_reports t)) (cn_tasks s)))"

definition running_tasks :: "'o conc_state \<Rightarrow> nat" where
  "running_tasks s = sum_list (map (\<lambda>t. if tt_gone t then 0 else 1) (cn_tasks s))"

definition conc_inv :: "('o \<Rightarrow> string) \<Rightarrow> 'o Handler \<Rightarrow> metrics \<Rightarrow> 'o conc_state \<Rightarrow> bool" where
  "conc_inv name h m s \<longleftrightarrow> (\<forall>t\<in>set (cn_requests s). thread_ok h t) \<and> (\<forall>t\<in>set (cn_tasks s). task_ok h t)
     \<and> cn_wg s = running_tasks s \<and> counted name m s"

lemma conc_init_inv: "conc_inv name h m (conc_init m)"
  by (simp add: conc_inv_def conc_init_def counted_def running_tasks_def)

lemma threads_upd:
  "x \<in> set (ts[i := t']) \<Longrightarrow> \<forall>t\<in>set ts. thread_ok h t \<Longrightarrow> thread_ok h t' \<Longrightarrow> thread_ok h x"
  "y \<in> set (us[i := u']) \<Longrightarrow> \<forall>t\<in>set us. task_ok h t \<Longrightarrow> task_ok h u' \<Longrightarrow> task_ok h y"
  using set_update_subset_insert [of ts i t'] set_update_subset_insert [of us i u'] by auto

lemma counted_request:
  assumes i: "i < length (cn_requests s)" and st: "req_step name h (cn_requests s ! i, cn_shared s) (t', sh')"
    and c: "counted name m s"
  shows "counted name m (s\<lparr>cn_shared := sh', cn_requests := (cn_requests s)[i := t']\<rparr>)"
proof -
  note k = req_step_counts [OF st]
  have "out_counter ok (fst sh') (n, DeliveryModeGuaranteed) = out_counter ok m (n, DeliveryModeGuaranteed)
      + sum_list (map (\<lambda>t. outcomes name n ok (rq_reports t)) ((cn_requests s)[i := t']))" for ok n
    by (rule counter_upd [OF i _ k(4)]) (use c in \<open>simp add: counted_def\<close>)
  moreover have "AuditSucceeded (fst sh') = AuditSucceeded m + sum_list (map req_succeeded ((cn_requests s)[i := t']))"
    by (rule counter_upd [OF i _ k(2)]) (use c in \<open>simp add: counted_def\<close>)
  moreover have "AuditFailed (fst sh') = AuditFailed m + sum_list (map req_failed ((cn_requests s)[i := t']))"
    by (rule counter_upd [OF i _ k(3)]) (use c in \<open>simp add: counted_def\<close>)
  ultimately show ?thesis using c k(1,5) by (simp add: counted_def)
qed

lemma counted_task:
  assumes i: "i < length (cn_tasks s)" and st: "task_step name (cn_tasks s ! i, cn_shared s) (t', sh')"
    and c: "counted name m s"
  shows "counted name m (s\<lparr>cn_shared := sh', cn_tasks := (cn_tasks s)[i := t']\<rparr>)"
proof -
  note k = task_step_counts [OF st]
  have "out_counter ok (fst sh') (n, DeliveryModeBestEffort) = out_counter ok m (n, DeliveryModeBestEffort)
      + sum_list (map (\<lambda>t. outcomes name n ok (tt_reports t)) ((cn_tasks s)[i := t']))" for ok n
    by (rule counter_upd [OF i _ k(4)]) (use c in \<open>simp add: counted_def\<close>)
  with c k(1-3,5) show ?thesis by (simp add: counted_def)
qed

text \<open>A step that changes only the phase of a request, to one that has not been counted, keeps the counters.\<close>

lemma counted_phase:
  assumes i: "i < length (cn_requests s)" and "rq_phase (cn_requests s ! i) = RqSpawning data" and c: "counted name m s"
    and s': "cn_shared s' = cn_shared s" "cn_requests s' = (cn_requests s)[i := (cn_requests s ! i)\<lparr>rq_phase := RqReplying None\<rparr>]"
      "\<And>n ok. sum_list (map (\<lambda>t. outcomes name n ok (tt_reports t)) (cn_tasks s'))
        = sum_list (map (\<lambda>t. outcomes name n ok (tt_reports t)) (cn_tasks s))"
  shows "counted name m s'"
proof -
  let ?t = "(cn_requests s ! i)\<lparr>rq_phase := RqReplying None\<rparr>"
  have "sum_list (map f ((cn_requests s)[i := ?t])) = sum_list (map f (cn_requests s))" if "f ?t = f (cn_requests s ! i)" for f :: "_ \<Rightarrow> nat"
    using sum_list_upd [OF i, of f ?t] that by simp
  then show ?thesis using c s' assms(2) unfolding counted_def by (simp add: req_succeeded_def req_failed_def)
qed

lemma spawning_ok: "thread_ok h t \<Longrightarrow> rq_phase t = RqSpawning data \<Longrightarrow> thread_ok h (t\<lparr>rq_phase := RqReplying None\<rparr>)"
  by (simp add: thread_ok_def)

lemma conc_inv_step:
  assumes st: "conc_step name h s s'" and inv: "conc_inv name h m s"
  shows "conc_inv name h m s'"
  using st
proof cases
  case (conc_arrive w m' lg i r)
  have "out_counter ok (AuditReceived_Inc m') x = out_counter ok m' x" for ok x by (simp add: count_defs)
  with inv conc_arrive(1,3) have "counted name m s'"
    by (simp add: conc_inv_def counted_def outcomes_def req_succeeded_def req_failed_def AuditReceived_Inc_def)
  with inv conc_arrive(1,2) show ?thesis by (simp add: conc_inv_def running_tasks_def thread_ok_def)
next
  case (conc_request i t' sh')
  have "thread_ok h (cn_requests s ! i)" using conc_request(2) inv by (simp add: conc_inv_def)
  then have t: "thread_ok h t'" by (rule thread_ok_step [OF conc_request(3)])
  have "counted name m s'"
    unfolding conc_request(1) using inv by (intro counted_request [OF conc_request(2,3)]) (simp add: conc_inv_def)
  with conc_request(1,2) t inv show ?thesis by (auto simp: conc_inv_def running_tasks_def intro: threads_upd)
next
  case (conc_spawn i data)
  have t: "thread_ok h ((cn_requests s ! i)\<lparr>rq_phase := RqReplying None\<rparr>)"
    by (rule spawning_ok [OF _ conc_spawn(3)]) (use conc_spawn(2) inv in \<open>simp add: conc_inv_def\<close>)
  have "counted name m s'"
    by (rule counted_phase [OF conc_spawn(2,3)]) (use inv in \<open>simp_all add: conc_spawn(1) conc_inv_def outcomes_def\<close>)
  with conc_spawn t inv show ?thesis by (auto simp: conc_inv_def running_tasks_def task_ok_def intro: threads_upd)
next
  case (conc_no_spawn i data)
  have t: "thread_ok h ((cn_requests s ! i)\<lparr>rq_phase := RqReplying None\<rparr>)"
    by (rule spawning_ok [OF _ conc_no_spawn(3)]) (use conc_no_spawn(2) inv in \<open>simp add: conc_inv_def\<close>)
  have "counted name m s'"
    by (rule counted_phase [OF conc_no_spawn(2,3)]) (use inv in \<open>simp_all add: conc_no_spawn(1) conc_inv_def\<close>)
  with conc_no_spawn t inv show ?thesis by (auto simp: conc_inv_def running_tasks_def intro: threads_upd)
next
  case (conc_task i t' sh')
  have "task_ok h (cn_tasks s ! i)" using conc_task(2) inv by (simp add: conc_inv_def)
  from task_ok_step [OF conc_task(4) this conc_task(3)] have t: "task_ok h t'" "\<not> tt_gone t'" by simp_all
  have "running_tasks s' = running_tasks s"
    using sum_list_upd [OF conc_task(2), of "\<lambda>t. if tt_gone t then 0 else 1" t'] t(2) conc_task(1,3) by (simp add: running_tasks_def)
  moreover have "counted name m s'"
    unfolding conc_task(1) using inv by (intro counted_task [OF conc_task(2,4)]) (simp add: conc_inv_def)
  ultimately show ?thesis using conc_task(1,2) t inv by (auto simp: conc_inv_def intro: threads_upd)
next
  case (conc_task_done i)
  let ?t = "(cn_tasks s ! i)\<lparr>tt_gone := True\<rparr>"
  have "task_ok h (cn_tasks s ! i)" using conc_task_done(2) inv by (simp add: conc_inv_def)
  then have t: "task_ok h ?t" using conc_task_done(4,5) by (simp add: task_ok_def)
  have "running_tasks s' + 1 = running_tasks s"
    using sum_list_upd [OF conc_task_done(2), of "\<lambda>t. if tt_gone t then 0 else 1" ?t] conc_task_done(1,3) by (simp add: running_tasks_def)
  moreover have "sum_list (map (\<lambda>t. outcomes name n ok (tt_reports t)) (cn_tasks s'))
      = sum_list (map (\<lambda>t. outcomes name n ok (tt_reports t)) (cn_tasks s))" for n ok
    using sum_list_upd [OF conc_task_done(2), of "\<lambda>t. outcomes name n ok (tt_reports t)" ?t] conc_task_done(1) by simp
  ultimately show ?thesis using conc_task_done t inv unfolding conc_inv_def counted_def by (auto intro: threads_upd)
qed

lemma conc_reach_inv: "(conc_step name h)\<^sup>*\<^sup>* (conc_init m) s \<Longrightarrow> conc_inv name h m s"
  by (induction rule: rtranclp_induct) (auto intro: conc_init_inv conc_inv_step)

section \<open>A request never waits for another one\<close>

definition is_done :: "'o request_thread \<Rightarrow> bool" where
  "is_done t = (case rq_phase t of RqDone d \<Rightarrow> True | _ \<Rightarrow> False)"

definition req_left :: "'o Handler \<Rightarrow> 'o request_thread \<Rightarrow> nat" where
  "req_left h t =
     (case rq_phase t of
        RqReading \<Rightarrow> 2 * length (guaranteedOutputs h) + 6
      | RqProcessing body \<Rightarrow> 2 * length (guaranteedOutputs h) + 5
      | RqForwarding data os rep ch \<Rightarrow> 2 * length os + length rep + 4
      | RqSpawning data \<Rightarrow> 3
      | RqReplying d \<Rightarrow> 2
      | RqMetering d \<Rightarrow> 1
      | RqDone d \<Rightarrow> 0)"

text \<open>Every step of a request brings it closer to its end, and unless it is to start a goroutine it can take one.\<close>

lemma req_left_step: "req_step name h (t, sh) (t', sh') \<Longrightarrow> req_left h t' < req_left h t"
  by (cases rule: req_step.cases, assumption) (auto simp: req_left_def)

lemma forward_can_step:
  assumes ph: "rq_phase t = RqForwarding data os rep ch"
  shows "\<exists>t' sh'. req_step name h (t, m, lg) (t', sh')"
proof -
  consider out os' where "os = [] @ out # os'" | e rep' where "rep = [] @ e # rep'" | "os = []" "rep = []"
    by (metis append_Nil neq_Nil_conv)
  then show ?thesis
  proof cases
    case 1
    from req_sent [OF ph [unfolded 1], of name h m lg] show ?thesis by blast
  next
    case 2
    from req_put [OF ph [unfolded 2], of name h m lg] show ?thesis by blast
  next
    case 3
    note ph = ph [unfolded 3]
    show ?thesis
    proof (cases "forward_result (guaranteedOutputs h) ch")
      case None
      from req_joined [OF ph None, of name m lg] show ?thesis by blast
    next
      case (Some e)
      from req_forward_failed [OF ph Some, of name m lg] show ?thesis by blast
    qed
  qed
qed

lemma req_can_step:
  assumes "\<not> is_done t" and "\<And>data. rq_phase t \<noteq> RqSpawning data"
  shows "\<exists>t' sh'. req_step name h (t, sh) (t', sh')"
proof -
  obtain m lg where sh: "sh = (m, lg)" by fastforce
  show ?thesis
  proof (cases "rq_phase t")
    case RqReading
    then show ?thesis unfolding sh using req_read_failed req_read by (cases "r_body (rq_in t)") blast+
  next
    case (RqProcessing body)
    show ?thesis
    proof (cases "process_all (processors h) (request_ctx h (rq_id t) (rq_in t)) body")
      case (Inl x)
      obtain e p where "x = (e, p)" by fastforce
      with Inl req_process_failed [OF RqProcessing, of h e p name m lg] show ?thesis unfolding sh by blast
    next
      case (Inr data)
      from req_process [OF RqProcessing Inr, of name m lg] show ?thesis unfolding sh by blast
    qed
  next
    case (RqForwarding data os rep ch)
    then show ?thesis unfolding sh by (rule forward_can_step)
  next
    case (RqReplying d)
    show ?thesis
    proof (cases d)
      case None
      from req_reply_ok [OF RqReplying [unfolded None], of name h m lg] show ?thesis unfolding sh by blast
    next
      case (Some msg)
      obtain w' logs where "writeErrorResponse (WriteHeader 500 (header_Set ''Content-Type'' ''application/json'' (rq_w t)))
        (request_log h (rq_id t)) 500 msg = (w', logs)" by fastforce
      from req_reply_failed [OF RqReplying [unfolded Some] this, of name m lg] show ?thesis unfolding sh by blast
    qed
  next
    case (RqMetering d)
    show ?thesis
    proof (cases d)
      case None
      from req_meter_ok [OF RqMetering [unfolded None], of name h m lg] show ?thesis unfolding sh by blast
    next
      case (Some msg)
      from req_meter_failed [OF RqMetering [unfolded Some], of name h m lg] show ?thesis unfolding sh by blast
    qed
  qed (use assms in \<open>simp_all add: is_done_def\<close>)
qed

text \<open>One step of request \<open>i\<close> that leaves every other request alone.\<close>

lemma request_advances:
  assumes "i < length (cn_requests s)" and "\<not> is_done (cn_requests s ! i)"
  obtains s' t' where "conc_step name h s s'" and "cn_requests s' = (cn_requests s)[i := t']"
    and "req_left h t' < req_left h (cn_requests s ! i)"
proof (cases "\<exists>data. rq_phase (cn_requests s ! i) = RqSpawning data")
  case True
  then obtain data where d: "rq_phase (cn_requests s ! i) = RqSpawning data" by blast
  then have "req_left h ((cn_requests s ! i)\<lparr>rq_phase := RqReplying None\<rparr>) < req_left h (cn_requests s ! i)"
    by (simp add: req_left_def)
  with that conc_spawn [OF assms(1) d, of h name] conc_no_spawn [OF assms(1) d, of h name] show thesis
    by (cases "bestEffortOutputs h = []") force+
next
  case False
  with req_can_step [OF assms(2)] obtain t' sh' where st: "req_step name h (cn_requests s ! i, cn_shared s) (t', sh')" by blast
  from that [OF conc_request [OF assms(1) st], of t'] req_left_step [OF st] show thesis by simp
qed

lemma request_completes:
  assumes "i < length (cn_requests s)"
  shows "\<exists>s'. (conc_step name h)\<^sup>*\<^sup>* s s' \<and> length (cn_requests s') = length (cn_requests s)
    \<and> is_done (cn_requests s' ! i) \<and> (\<forall>j < length (cn_requests s). j \<noteq> i \<longrightarrow> cn_requests s' ! j = cn_requests s ! j)"
  using assms
proof (induction "req_left h (cn_requests s ! i)" arbitrary: s rule: less_induct)
  case less
  show ?case
  proof (cases "is_done (cn_requests s ! i)")
    case False
    with less.prems obtain s1 t' where s1: "conc_step name h s s1" "cn_requests s1 = (cn_requests s)[i := t']"
      "req_left h t' < req_left h (cn_requests s ! i)" by (rule request_advances)
    with less.hyps [of s1] less.prems obtain s' where "(conc_step name h)\<^sup>*\<^sup>* s1 s'" "length (cn_requests s') = length (cn_requests s)"
      "is_done (cn_requests s' ! i)" "\<forall>j < length (cn_requests s). j \<noteq> i \<longrightarrow> cn_requests s' ! j = cn_requests s1 ! j" by auto
    with s1 show ?thesis by (intro exI [of _ s']) (auto intro: converse_rtranclp_into_rtranclp)
  qed blast
qed

section \<open>Properties\<close>

definition in_flight :: "'o conc_state \<Rightarrow> nat" where
  "in_flight s = length (filter (\<lambda>t. \<not> is_done t) (cn_requests s))"

lemma requests_partition:
  "length ts = sum_list (map req_succeeded ts) + sum_list (map req_failed ts) + length (filter (\<lambda>t. \<not> is_done t) ts)"
  by (induction ts) (auto simp: req_succeeded_def req_failed_def is_done_def split: request_phase.splits option.splits)


text \<open>
  Property C9. Requests do not interfere: whatever other requests and background sends do in between, the response of a
  finished request is the one the sequential \<^const>\<open>ServeHTTP\<close> gives, alone, with outputs that answer as this request's
  own sends were answered; it is a 200 exactly if every guaranteed output was sent to and every send returned nil.
\<close>

theorem concurrent_response:
  assumes "(conc_step name h)\<^sup>*\<^sup>* (conc_init m) s" and "t \<in> set (cn_requests s)" and "is_done t"
    and "hs_handler st = h" and "valid_schedule (guaranteedOutputs h) sched"
    and "\<forall>data. request_data h (rq_id t) (rq_in t) = Inr data \<longrightarrow>
      (\<forall>r\<in>set (rq_reports t). send_err ops (request_ctx h (rq_id t) (rq_in t)) data (fst r) = snd r)"
  shows "rq_w t = fst (ServeHTTP ops (rq_id t) sched (rq_in t) (rq_fresh t) st)
    \<and> (answered 200 (rq_w t) \<longleftrightarrow> (\<exists>data. request_data h (rq_id t) (rq_in t) = Inr data)
         \<and> mset (map fst (rq_reports t)) = mset (guaranteedOutputs h) \<and> all_nil (rq_reports t))"
proof -
  from assms(3) obtain d where d: "rq_phase t = RqDone d" by (auto simp: is_done_def split: request_phase.splits)
  have "thread_ok h t" using conc_reach_inv [OF assms(1)] assms(2) by (simp add: conc_inv_def)
  with d have w: "fresh_writer (rq_fresh t)" "rq_w t = reply d (rq_fresh t)" and dec: "decided h t d"
    by (simp_all add: thread_ok_def)
  have ok: "request_ok ops h (rq_id t) (rq_in t) \<longleftrightarrow> d = None"
  proof (cases "request_data h (rq_id t) (rq_in t)")
    case (Inr data)
    with dec have r: "mset (map fst (rq_reports t)) = mset (guaranteedOutputs h)" "d = None \<longleftrightarrow> all_nil (rq_reports t)"
      by (auto simp: decided_def)
    have "set (guaranteedOutputs h) = fst ` set (rq_reports t)" using mset_eq_setD [OF r(1)] by simp
    with Inr r(2) assms(6) show ?thesis by (auto simp: request_ok_def all_sent_def all_nil_def)
  qed (use dec in \<open>auto simp: request_ok_def decided_def\<close>)
  have "d = None \<or> d = Some (failure_message h (rq_id t) (rq_in t))"
    using dec by (auto simp: decided_def failure_message_def split: sum.splits if_splits)
  then have "rq_w t = fst (ServeHTTP ops (rq_id t) sched (rq_in t) (rq_fresh t) st)"
    using ServeHTTP_writer [of st sched "rq_fresh t" ops "rq_id t" "rq_in t"] w ok assms(4,5) by (auto simp: reply_def)
  moreover have "answered 200 (rq_w t) \<longleftrightarrow> d = None"
    using w(2) by (auto simp: answered_def reply_def error_response_def Let_def split: option.splits)
  ultimately show ?thesis using dec by (auto simp: decided_def split: sum.splits if_splits)
qed

text \<open>
  A request never waits for another one: from every reachable state a request can be completed by steps
  that leave all other requests where they are.
\<close>

lemma request_not_blocked:
  assumes "(conc_step name h)\<^sup>*\<^sup>* (conc_init m) s" and "i < length (cn_requests s)"
  shows "\<exists>s'. (conc_step name h)\<^sup>*\<^sup>* (conc_init m) s' \<and> length (cn_requests s') = length (cn_requests s)
    \<and> is_done (cn_requests s' ! i) \<and> (\<forall>j < length (cn_requests s). j \<noteq> i \<longrightarrow> cn_requests s' ! j = cn_requests s ! j)"
  using request_completes [OF assms(2), of name h] assms(1) by (metis rtranclp_trans)

section \<open>A concrete run\<close>

text \<open>A request arrives and is completed.\<close>

lemma sample_requests:
  "\<exists>s. (conc_step id (sample_handler [''a'']))\<^sup>*\<^sup>* (conc_init no_metrics) s \<and> length (cn_requests s) = 1 \<and> is_done (cn_requests s ! 0)"
proof -
  let ?h = "sample_handler [''a'']"
  let ?s = "(conc_init no_metrics :: string conc_state)\<lparr>cn_shared := (AuditReceived_Inc no_metrics, []), cn_requests :=
    [\<lparr>rq_id = ''1'', rq_in = sample_request, rq_fresh = sample_writer, rq_w = sample_writer, rq_phase = RqReading, rq_reports = []\<rparr>]\<rparr>"
  have "conc_step id ?h (conc_init no_metrics) ?s"
    using conc_arrive [of sample_writer "conc_init no_metrics" no_metrics "[]" id ?h "''1''" sample_request]
    by (simp add: conc_init_def fresh_writer_def sample_writer_def)
  moreover obtain s where "(conc_step id ?h)\<^sup>*\<^sup>* ?s s" "length (cn_requests s) = 1" "is_done (cn_requests s ! 0)"
    using request_completes [of 0 ?s id ?h] by auto
  ultimately show ?thesis by (meson converse_rtranclp_into_rtranclp)
qed


theorem request_not_blocked_witness:
  "\<exists>s'. (conc_step id (sample_handler [''a'']))\<^sup>*\<^sup>* (conc_init no_metrics) s' \<and> length (cn_requests s') = 1 \<and> is_done (cn_requests s' ! 0)"
proof -
  obtain s where s: "(conc_step id (sample_handler [''a'']))\<^sup>*\<^sup>* (conc_init no_metrics) s" "length (cn_requests s) = 1"
    using sample_requests by blast
  from request_not_blocked [OF s(1), of 0] s(2) show ?thesis by auto
qed

theorem concurrent_response_witness:
  "\<exists>s t ops. (conc_step id (sample_handler [''a'']))\<^sup>*\<^sup>* (conc_init no_metrics) s \<and> t \<in> set (cn_requests s)
     \<and> rq_w t = fst (ServeHTTP ops (rq_id t) \<lparr>report_order = [''a''], arrival_order = [''a'']\<rparr> (rq_in t) (rq_fresh t) (sample_hstate [''a'']))"
proof -
  let ?h = "sample_handler [''a'']"
  obtain s where s: "(conc_step id ?h)\<^sup>*\<^sup>* (conc_init no_metrics) s" "length (cn_requests s) = 1" "is_done (cn_requests s ! 0)"
    using sample_requests by blast
  define t where "t = cn_requests s ! 0"
  have t: "t \<in> set (cn_requests s)" "is_done t" using s(2,3) by (simp_all add: t_def)
  let ?ops = "\<lparr>Op_Send = (\<lambda>out ctx data. (snd (hd (rq_reports t)), ())), Op_Name = id\<rparr> :: (string, unit) output_ops"
  have "thread_ok ?h t" using conc_reach_inv [OF s(1)] t(1) by (simp add: conc_inv_def)
  with t(2) obtain d where "decided ?h t d" by (auto simp: thread_ok_def is_done_def split: request_phase.splits)
  then have "length (rq_reports t) \<le> 1"
    by (auto simp: decided_def sample_handler_def split: sum.splits dest: arg_cong [of _ _ size])
  then have a: "\<forall>r\<in>set (rq_reports t). send_err ?ops ctx data (fst r) = snd r" for ctx data
    by (cases "rq_reports t") (auto simp: send_err_def)
  have h: "hs_handler (sample_hstate [''a'']) = ?h" by (simp add: sample_hstate_def)
  have v: "valid_schedule (guaranteedOutputs ?h) \<lparr>report_order = [''a''], arrival_order = [''a'']\<rparr>"
    by (simp add: valid_schedule_def sample_handler_def)
  from concurrent_response [OF s(1) t h v, of ?ops] a have
    "rq_w t = fst (ServeHTTP ?ops (rq_id t) \<lparr>report_order = [''a''], arrival_order = [''a'']\<rparr> (rq_in t) (rq_fresh t) (sample_hstate [''a'']))"
    by blast
  with s(1) t(1) show ?thesis by blast
qed

end
