(* ===== verification/HttpOutput.thy ===== *)
theory HttpOutput
  imports TlsClient Interfaces
begin

text \<open>
  The HTTP output (\<^verbatim>\<open>src/internal/output/http/http.go\<close>, \<^verbatim>\<open>options.go\<close>): its state, its functional
  options, its construction and its release.

  \<open>HttpOutput\<close> is the Go struct \<^verbatim>\<open>Output\<close>. The resources an output holds are file watchers, identified
  by number, and the goroutine that serves each; \<open>fs_world\<close> records which are open and running, so
  that leaks can be stated. The lemmas show that construction either fails and holds nothing, or
  succeeds and holds at most one watcher with its goroutine, and that closing releases both, once.
\<close>

section \<open>State\<close>

record HttpOutput =
  out_url :: string
  out_client :: "http_client option"
  out_compression :: string
  maxSendAttempts :: int
  baseBackoff :: duration
  maxBackoff :: duration
  tlsReloadDebounce :: duration
  out_logger :: logger
  out_watcher :: "nat option"
  closeOnce :: bool
  out_wg :: nat

record fs_world =
  open_watchers :: "nat set"
  watch_loops :: "nat set"
  next_watcher :: nat

text \<open>Watcher numbers are handed out in order, and a loop only runs on an open watcher.\<close>

definition fs_wf :: "fs_world \<Rightarrow> bool" where
  "fs_wf w \<longleftrightarrow> watch_loops w \<subseteq> open_watchers w \<and> (\<forall>i\<in>open_watchers w. i < next_watcher w)"

definition contentEncodingGzip :: string where
  "contentEncodingGzip = ''gzip''"

definition defaultTLSReloadDebounce :: duration where
  "defaultTLSReloadDebounce = 500 * Millisecond"

section \<open>options.go\<close>

type_synonym http_option = "HttpOutput \<Rightarrow> HttpOutput result"

definition WithMaxSendAttempts :: "int \<Rightarrow> http_option" where
  "WithMaxSendAttempts attempts o1 = Inr (o1\<lparr>maxSendAttempts := attempts\<rparr>)"

definition WithBaseBackoff :: "duration \<Rightarrow> http_option" where
  "WithBaseBackoff backoff o1 = Inr (o1\<lparr>baseBackoff := backoff\<rparr>)"

definition WithMaxBackoff :: "duration \<Rightarrow> http_option" where
  "WithMaxBackoff backoff o1 = Inr (o1\<lparr>maxBackoff := backoff\<rparr>)"

definition WithOutputLogger :: "logger \<Rightarrow> http_option" where
  "WithOutputLogger l o1 = Inr (o1\<lparr>out_logger := l\<rparr>)"

definition WithTLSReloadDebounce :: "duration \<Rightarrow> http_option" where
  "WithTLSReloadDebounce d o1 =
     (if sint d < 0
      then Inl (Errors_New (''TLS reload debounce must be non-negative, got '' @ duration_String d))
      else Inr (o1\<lparr>tlsReloadDebounce := d\<rparr>))"

lemmas option_defs [go_defs] =
  WithMaxSendAttempts_def WithBaseBackoff_def WithMaxBackoff_def WithOutputLogger_def
  WithTLSReloadDebounce_def

fun apply_options :: "http_option list \<Rightarrow> HttpOutput \<Rightarrow> HttpOutput result" where
  "apply_options [] o1 = Inr o1"
| "apply_options (opt # opts) o1 =
     (case opt o1 of
        Inl e \<Rightarrow> Inl (wrapf ''failed to apply option: '' e)
      | Inr o2 \<Rightarrow> apply_options opts o2)"

section \<open>startTLSWatcher\<close>

text \<open>\<^verbatim>\<open>watcher.Add\<close> on each directory; the first failure with its directory.\<close>

fun watcher_add_all :: "sys_env \<Rightarrow> nat \<Rightarrow> string list \<Rightarrow> (string \<times> go_error) option" where
  "watcher_add_all env i [] = None"
| "watcher_add_all env i (dir # dirs) =
     (case WatcherAdd env i dir of
        Some e \<Rightarrow> Some (dir, e)
      | None \<Rightarrow> watcher_add_all env i dirs)"

definition startTLSWatcher ::
    "sys_env \<Rightarrow> HttpOutput \<Rightarrow> ClientTLS \<Rightarrow> fs_world \<Rightarrow> err \<times> HttpOutput \<times> fs_world" where
  "startTLSWatcher env o1 tlsConfig w =
     (let dirs = tlsDirectories tlsConfig
      in if dirs = [] then (None, o1, w)
         else
           (let watcher = next_watcher w
            in case NewWatcher env watcher of
                 Some e \<Rightarrow> (Some (wrapf ''failed to create file watcher: '' e), o1, w)
               | None \<Rightarrow>
                   (let w = w\<lparr>open_watchers := insert watcher (open_watchers w),
                              next_watcher := Suc watcher\<rparr>
                    in case watcher_add_all env watcher dirs of
                         Some (dir, e) \<Rightarrow>
                           (Some (wrapf (''failed to watch directory '' @ dir @ '': '') e), o1,
                            w\<lparr>open_watchers := open_watchers w - {watcher}\<rparr>)
                       | None \<Rightarrow>
                           (None,
                            o1\<lparr>out_watcher := Some watcher, out_wg := out_wg o1 + 1\<rparr>,
                            w\<lparr>watch_loops := insert watcher (watch_loops w)\<rparr>))))"

section \<open>New\<close>

definition new_output :: "OutputHTTP \<Rightarrow> http_client \<Rightarrow> HttpOutput" where
  "new_output config client =
     \<lparr>out_url = URL config, out_client = Some client, out_compression = Compression config,
      maxSendAttempts = 4, baseBackoff = 500 * Millisecond, maxBackoff = 3 * Second,
      tlsReloadDebounce = defaultTLSReloadDebounce, out_logger = Discard, out_watcher = None,
      closeOnce = False, out_wg = 0\<rparr>"

definition New ::
    "sys_env \<Rightarrow> OutputHTTP option \<Rightarrow> http_option list \<Rightarrow> fs_world \<Rightarrow> HttpOutput result \<times> fs_world" where
  "New env config options w =
     (case config of
        None \<Rightarrow> (Inl (Errors_New ''HTTP output configuration is nil''), w)
      | Some config \<Rightarrow>
          (case createHTTPClient env (HTTPTLS config) of
             Inl e \<Rightarrow> (Inl (wrapf ''failed to create HTTP client: '' e), w)
           | Inr client \<Rightarrow>
               (case apply_options options (new_output config client) of
                  Inl e \<Rightarrow> (Inl e, w)
                | Inr o1 \<Rightarrow>
                    (case HTTPTLS config of
                       None \<Rightarrow> (Inr o1, w)
                     | Some tls \<Rightarrow>
                         (case startTLSWatcher env o1 tls w of
                            (Some e, o1, w) \<Rightarrow> (Inl (wrapf ''failed to start TLS file watcher: '' e), w)
                          | (None, o1, w) \<Rightarrow> (Inr o1, w))))))"

section \<open>Name and Close\<close>

definition Name :: "HttpOutput \<Rightarrow> string" where
  "Name o1 = out_url o1"

text \<open>
  The first call closes the watcher and waits until the watcher goroutine is gone; any later call
  returns nil. That the wait ends (the goroutine leaves its loop once its channels are closed) is
  shown on the step relation of the watcher loop.
\<close>

definition Close :: "sys_env \<Rightarrow> HttpOutput \<Rightarrow> fs_world \<Rightarrow> err \<times> HttpOutput \<times> fs_world" where
  "Close env o1 w =
     (if closeOnce o1 then (None, o1, w)
      else
        (let (e, w) =
           (case out_watcher o1 of
              None \<Rightarrow> (None, w)
            | Some watcher \<Rightarrow>
                (WatcherClose env watcher,
                 w\<lparr>open_watchers := open_watchers w - {watcher},
                   watch_loops := watch_loops w - {watcher}\<rparr>))
         in (e, o1\<lparr>closeOnce := True, out_wg := 0\<rparr>, w)))"

section \<open>Resources\<close>

definition resources :: "fs_world \<Rightarrow> nat set \<times> nat set" where
  "resources w = (open_watchers w, watch_loops w)"

text \<open>The resources an open output accounts for.\<close>

definition holds :: "HttpOutput \<Rightarrow> nat set" where
  "holds o1 = (if closeOnce o1 then {} else set_option (out_watcher o1))"

lemma fs_wf_fresh: "fs_wf w \<Longrightarrow> next_watcher w \<notin> open_watchers w \<and> next_watcher w \<notin> watch_loops w"
  by (auto simp: fs_wf_def)

lemma startTLSWatcher_error:
  assumes "startTLSWatcher env o1 tls w = (Some e, o2, w')" and "fs_wf w"
  shows "resources w' = resources w" and "fs_wf w'"
proof -
  let ?n = "next_watcher w"
  consider "w' = w"
    | "w' = w\<lparr>next_watcher := Suc ?n, open_watchers := insert ?n (open_watchers w) - {?n}\<rparr>"
    using assms(1) by (auto simp: startTLSWatcher_def Let_def split: if_splits option.splits)
  then show "resources w' = resources w" and "fs_wf w'"
    using assms(2) fs_wf_fresh [OF assms(2)]
    by (cases; force simp: resources_def fs_wf_def less_Suc_eq)+
qed

text \<open>The world after a watcher was opened and its loop started.\<close>

definition watching :: "fs_world \<Rightarrow> fs_world" where
  "watching w = w\<lparr>open_watchers := insert (next_watcher w) (open_watchers w),
     next_watcher := Suc (next_watcher w), watch_loops := insert (next_watcher w) (watch_loops w)\<rparr>"

definition with_watcher :: "HttpOutput \<Rightarrow> nat \<Rightarrow> HttpOutput" where
  "with_watcher o1 i = o1\<lparr>out_watcher := Some i, out_wg := out_wg o1 + 1\<rparr>"

lemma startTLSWatcher_ok:
  assumes "startTLSWatcher env o1 tls w = (None, o2, w')"
  shows "(o2, w') = (o1, w) \<or> (o2, w') = (with_watcher o1 (next_watcher w), watching w)"
  using assms
  by (auto simp: startTLSWatcher_def Let_def watching_def with_watcher_def
      split: if_splits option.splits prod.splits)

text \<open>Options change the tuning of an output only: not its target, client, watcher or lifecycle.\<close>

definition core :: "HttpOutput \<Rightarrow> string \<times> http_client option \<times> string \<times> nat option \<times> bool \<times> nat" where
  "core o1 = (out_url o1, out_client o1, out_compression o1, out_watcher o1, closeOnce o1, out_wg o1)"

definition config_option :: "http_option \<Rightarrow> bool" where
  "config_option opt \<longleftrightarrow> (\<forall>o1 o2. opt o1 = Inr o2 \<longrightarrow> core o2 = core o1)"

lemma config_options [simp, intro]:
  "config_option (WithMaxSendAttempts n)" "config_option (WithBaseBackoff d)"
  "config_option (WithMaxBackoff d)" "config_option (WithOutputLogger l)"
  "config_option (WithTLSReloadDebounce d)"
  by (auto simp: config_option_def core_def option_defs split: if_splits)

lemma apply_options_core:
  assumes "\<forall>opt\<in>set opts. config_option opt" and "apply_options opts o1 = Inr o2"
  shows "core o2 = core o1"
  using assms
proof (induction opts arbitrary: o1)
  case Nil
  then show ?case by simp
next
  case (Cons opt opts)
  then obtain o3 where o3: "opt o1 = Inr o3" "apply_options opts o3 = Inr o2"
    by (auto split: sum.splits)
  from Cons.prems(1) o3(1) have "core o3 = core o1"
    by (simp add: config_option_def)
  with Cons.IH [of o3] Cons.prems(1) o3(2) show ?case by simp
qed

lemma New_Inl:
  assumes "New env config opts w = (Inl e, w')" and "fs_wf w"
  shows "resources w' = resources w \<and> fs_wf w'"
  using assms
  by (auto simp: New_def split: option.splits sum.splits prod.splits dest: startTLSWatcher_error)

lemma New_InrE:
  assumes "New env config opts w = (Inr o1, w')"
  obtains cfg client o2 where "config = Some cfg" and "createHTTPClient env (HTTPTLS cfg) = Inr client"
    and "apply_options opts (new_output cfg client) = Inr o2"
    and "case HTTPTLS cfg of None \<Rightarrow> o1 = o2 \<and> w' = w
         | Some tls \<Rightarrow> startTLSWatcher env o2 tls w = (None, o1, w')"
  using assms that
  by (auto simp: New_def split: option.splits sum.splits prod.splits)

lemma New_Inr:
  assumes "New env config opts w = (Inr o1, w')" and "fs_wf w"
    and "\<forall>opt\<in>set opts. config_option opt"
  shows "fs_wf w'" and "closeOnce o1 = False" and "holds o1 \<inter> open_watchers w = {}"
    and "holds o1 \<inter> watch_loops w = {}"
    and "resources w' = (open_watchers w \<union> holds o1, watch_loops w \<union> holds o1)"
    and "\<exists>cfg. config = Some cfg \<and> out_url o1 = URL cfg"
proof -
  from assms(1) obtain cfg client o2 where c: "config = Some cfg"
    and o2: "apply_options opts (new_output cfg client) = Inr o2"
    and st: "case HTTPTLS cfg of None \<Rightarrow> o1 = o2 \<and> w' = w
         | Some tls \<Rightarrow> startTLSWatcher env o2 tls w = (None, o1, w')"
    by (rule New_InrE)
  from apply_options_core [OF assms(3) o2]
  have p: "out_url o2 = URL cfg" "out_watcher o2 = None" "closeOnce o2 = False"
    by (simp_all add: core_def new_output_def)
  have "(o1, w') = (o2, w) \<or> (o1, w') = (with_watcher o2 (next_watcher w), watching w)"
  proof (cases "HTTPTLS cfg")
    case None
    with st show ?thesis by simp
  next
    case (Some tls)
    with st have "startTLSWatcher env o2 tls w = (None, o1, w')" by simp
    then show ?thesis by (rule startTLSWatcher_ok)
  qed
  then have "fs_wf w' \<and> \<not> closeOnce o1 \<and> holds o1 \<inter> open_watchers w = {}
    \<and> holds o1 \<inter> watch_loops w = {}
    \<and> resources w' = (open_watchers w \<union> holds o1, watch_loops w \<union> holds o1) \<and> out_url o1 = URL cfg"
  proof
    assume "(o1, w') = (o2, w)"
    with assms(2) p show ?thesis by (simp add: resources_def holds_def)
  next
    assume "(o1, w') = (with_watcher o2 (next_watcher w), watching w)"
    then have o1: "o1 = with_watcher o2 (next_watcher w)" and w': "w' = watching w" by blast+
    have "holds o1 = {next_watcher w}"
      using p unfolding o1 by (simp add: holds_def with_watcher_def)
    moreover have "fs_wf w'"
      using assms(2) unfolding w' by (auto simp: watching_def fs_wf_def less_Suc_eq)
    ultimately show ?thesis
      using o1 w' p fs_wf_fresh [OF assms(2)] by (simp add: watching_def resources_def with_watcher_def)
  qed
  with c show "fs_wf w'" and "closeOnce o1 = False" and "holds o1 \<inter> open_watchers w = {}"
    and "holds o1 \<inter> watch_loops w = {}"
    and "resources w' = (open_watchers w \<union> holds o1, watch_loops w \<union> holds o1)"
    and "\<exists>cfg. config = Some cfg \<and> out_url o1 = URL cfg"
    by simp_all
qed

lemma Close_resources:
  assumes "Close env o1 w = (e, o2, w')"
  shows "resources w' = (open_watchers w - holds o1, watch_loops w - holds o1)"
    and "holds o2 = {}" and "next_watcher w' = next_watcher w"
    and "out_wg o2 = 0 \<or> closeOnce o1"
  using assms by (auto simp: Close_def resources_def holds_def Let_def split: if_splits option.splits)

lemma Close_wf: "Close env o1 w = (e, o2, w') \<Longrightarrow> fs_wf w \<Longrightarrow> fs_wf w'"
  by (auto simp: Close_def fs_wf_def Let_def split: if_splits option.splits)

text \<open>The laws of an output's construction and release hold for the HTTP output.\<close>

datatype resource = OpenWatcher nat | WatchLoop nat

definition used_resources :: "fs_world \<Rightarrow> resource set" where
  "used_resources w = OpenWatcher ` open_watchers w \<union> WatchLoop ` watch_loops w"

definition held_resources :: "HttpOutput \<Rightarrow> resource set" where
  "held_resources o1 = OpenWatcher ` holds o1 \<union> WatchLoop ` holds o1"

lemma used_resources_pair:
  "resources w = (A, B) \<Longrightarrow> used_resources w = OpenWatcher ` A \<union> WatchLoop ` B"
  by (auto simp: resources_def used_resources_def)

interpretation http: output_closer "Close env" held_resources used_resources fs_wf for env
proof
  fix o1 w e o2 w'
  assume c: "Close env o1 w = (e, o2, w')"
  show "used_resources w' = used_resources w - held_resources o1"
    unfolding used_resources_pair [OF Close_resources(1) [OF c]]
    by (auto simp: used_resources_def held_resources_def)
  show "held_resources o2 = {}" using Close_resources(2) [OF c] by (simp add: held_resources_def)
  show "fs_wf w \<Longrightarrow> fs_wf w'" using c by (rule Close_wf)
qed

interpretation http_new: output_builder "Close env" held_resources used_resources fs_wf
  "\<lambda>(config, opts). New env config opts" "\<lambda>(config, opts). \<forall>opt\<in>set opts. config_option opt" for env
proof (unfold_locales, goal_cases)
  case (1 c w e w')
  then show ?case by (auto simp: resources_def used_resources_def split: prod.splits dest!: New_Inl)
next
  case (2 c w o1 w')
  then obtain config opts where c: "New env config opts w = (Inr o1, w')" "\<forall>opt\<in>set opts. config_option opt"
    by (auto split: prod.splits)
  note new = New_Inr [OF c(1) 2(3) c(2)]
  show ?case
    using new(1,3,4) unfolding used_resources_pair [OF new(5)]
    by (auto simp: used_resources_def held_resources_def)
qed

text \<open>
  Property C26. Construction leaks nothing: when \<^verbatim>\<open>New\<close> fails, at whatever step, no watcher and no
  watcher goroutine is left behind; when it succeeds, one \<^verbatim>\<open>Close\<close> takes the output's watcher and
  goroutine away again and no one else's, and any further \<^verbatim>\<open>Close\<close> returns nil and changes nothing.
\<close>

theorem New_Close_releases:
  assumes "fs_wf w" and "\<forall>opt\<in>set opts. config_option opt"
  shows "case New env config opts w of
      (Inl e, w1) \<Rightarrow> resources w1 = resources w
    | (Inr o1, w1) \<Rightarrow>
        (case Close env o1 w1 of
           (e, o2, w2) \<Rightarrow> resources w2 = resources w \<and> out_wg o2 = 0 \<and> Close env o2 w2 = (None, o2, w2))"
proof (cases "New env config opts w")
  case (Pair r w1)
  show ?thesis
  proof (cases r)
    case (Inl e)
    with Pair New_Inl [of env config opts w e w1] assms(1) show ?thesis by simp
  next
    case (Inr o1)
    note new = New_Inr [OF Pair [unfolded Inr] assms]
    obtain e o2 w2 where cl: "Close env o1 w1 = (e, o2, w2)" by (metis prod_cases3)
    have "resources w2 = resources w"
      using Close_resources(1) [OF cl] new(3-5) by (auto simp: resources_def)
    moreover have "out_wg o2 = 0 \<and> Close env o2 w2 = (None, o2, w2)"
      using cl new(2) by (auto simp: Close_def Let_def split: option.splits)
    ultimately show ?thesis using Pair Inr cl by simp
  qed
qed

definition sample_http :: OutputHTTP where
  "sample_http = \<lparr>URL = ''https://example.com/v1/logs'',
     HTTPTLS = Some \<lparr>CAFile = ''/etc/ssl/ca.crt'', ClientCertFile = '''', ClientKeyFile = ''''\<rparr>,
     Compression = ''gzip''\<rparr>"

definition empty_world :: fs_world where
  "empty_world = \<lparr>open_watchers = {}, watch_loops = {}, next_watcher = 0\<rparr>"

lemma sample_new:
  "\<exists>o1. New sample_env (Some sample_http) [WithMaxSendAttempts 6] empty_world =
     (Inr o1, \<lparr>open_watchers = {0}, watch_loops = {0}, next_watcher = 1\<rparr>) \<and> holds o1 = {0}"
  by (simp add: New_def sample_http_def createHTTPClient_def loadCACertPool_def sample_env_def Let_def
      WithMaxSendAttempts_def startTLSWatcher_def tlsDirectories_def empty_world_def new_output_def
      holds_def)

theorem New_Close_releases_witness:
  "\<exists>o1 w1. New sample_env (Some sample_http) [WithMaxSendAttempts 6] empty_world = (Inr o1, w1)
     \<and> open_watchers w1 = {0} \<and> resources (snd (snd (Close sample_env o1 w1))) = ({}, {})"
proof -
  obtain o1 where o1: "New sample_env (Some sample_http) [WithMaxSendAttempts 6] empty_world =
     (Inr o1, \<lparr>open_watchers = {0}, watch_loops = {0}, next_watcher = 1\<rparr>)"
    using sample_new by blast
  have "fs_wf empty_world" by (simp add: fs_wf_def empty_world_def)
  from New_Close_releases [OF this, of "[WithMaxSendAttempts 6]" sample_env "Some sample_http"] o1
  show ?thesis by (auto simp: resources_def empty_world_def split: prod.splits)
qed

end
