(* ===== verification/Factory.thy ===== *)
theory Factory
  imports HttpOutput
begin

text \<open>
  The output factory, \<^verbatim>\<open>src/internal/output/factory/factory.go\<close>: the HTTP outputs of one delivery mode,
  or an error and nothing.

  The loop calls the constructor and \<^verbatim>\<open>Close\<close> of the output package; it is written with these as
  arguments, so that what it owes to the interface alone is proved from the laws of
  \<^const>\<open>output_builder\<close>. The argument \<open>q\<close> is how \<^verbatim>\<open>%q\<close> prints a name.
\<close>

section \<open>closeOutputs\<close>

definition close_errors :: "(string \<Rightarrow> string) \<Rightarrow> ('o \<Rightarrow> string) \<Rightarrow> string \<Rightarrow> 'o list \<Rightarrow> err list \<Rightarrow> err list" where
  "close_errors q name what os es =
     map2 (\<lambda>o1 e. map_option (wrapf (what @ q (name o1) @ '': '')) e) os es"

definition factory_closeOutputs ::
    "(string \<Rightarrow> string) \<Rightarrow> ('o \<Rightarrow> 'f \<Rightarrow> err \<times> 'o \<times> 'f) \<Rightarrow> ('o \<Rightarrow> string) \<Rightarrow> 'o list \<Rightarrow> 'f \<Rightarrow> err \<times> 'f" where
  "factory_closeOutputs q close name outputs w =
     (case close_each close outputs w of
        (es, os, w) \<Rightarrow> (errors_Join (close_errors q name ''failed to close output '' outputs es), w))"

section \<open>NewHTTPOutputsWithOptions\<close>

definition selected :: "string \<Rightarrow> OutputConfig \<Rightarrow> bool" where
  "selected deliveryMode outputConfig \<longleftrightarrow> HTTP outputConfig \<noteq> None \<and> DeliveryMode outputConfig = deliveryMode"

fun NewHTTPOutputs_loop ::
    "(string \<Rightarrow> string) \<Rightarrow> (OutputHTTP option \<times> 'opts \<Rightarrow> 'f \<Rightarrow> 'o result \<times> 'f) \<Rightarrow>
     ('o \<Rightarrow> 'f \<Rightarrow> err \<times> 'o \<times> 'f) \<Rightarrow> ('o \<Rightarrow> string) \<Rightarrow> string \<Rightarrow> 'opts \<Rightarrow>
     'o list \<Rightarrow> OutputConfig list \<Rightarrow> 'f \<Rightarrow> 'o list result \<times> 'f" where
  "NewHTTPOutputs_loop q build close name mode opts outputs [] w = (Inr outputs, w)"
| "NewHTTPOutputs_loop q build close name mode opts outputs (outputConfig # rest) w =
     (if HTTP outputConfig \<noteq> None \<and> DeliveryMode outputConfig = mode then
        (case build (HTTP outputConfig, opts) w of
           (Inl e, w) \<Rightarrow>
             (case factory_closeOutputs q close name outputs w of
                (ce, w) \<Rightarrow> (Inl (the (errors_Join [Some (wrapf ''failed to create HTTP output: '' e), ce])), w))
         | (Inr o1, w) \<Rightarrow> NewHTTPOutputs_loop q build close name mode opts (outputs @ [o1]) rest w)
      else NewHTTPOutputs_loop q build close name mode opts outputs rest w)"

definition NewHTTPOutputsWithOptions ::
    "(string \<Rightarrow> string) \<Rightarrow> sys_env \<Rightarrow> OutputConfig list \<Rightarrow> string \<Rightarrow> http_option list \<Rightarrow> fs_world \<Rightarrow>
     HttpOutput list result \<times> fs_world" where
  "NewHTTPOutputsWithOptions q env allOutputs deliveryMode httpOpts w =
     NewHTTPOutputs_loop q (\<lambda>(config, opts). New env config opts) (Close env) Name deliveryMode httpOpts
       [] allOutputs w"

section \<open>What the loop builds\<close>

lemma NewHTTPOutputs_loop_built:
  assumes "NewHTTPOutputs_loop q build close name mode opts outputs cfgs w = (Inr os, w')"
  shows "\<exists>new. os = outputs @ new
    \<and> list_all2 (\<lambda>c o1. \<exists>w1 w2. build (HTTP c, opts) w1 = (Inr o1, w2)) (filter (selected mode) cfgs) new"
  using assms
proof (induction cfgs arbitrary: outputs w)
  case (Cons c cfgs)
  show ?case
  proof (cases "selected mode c")
    case True
    with Cons.prems obtain o1 w1 where b: "build (HTTP c, opts) w = (Inr o1, w1)"
      "NewHTTPOutputs_loop q build close name mode opts (outputs @ [o1]) cfgs w1 = (Inr os, w')"
      by (auto simp: selected_def split: prod.splits sum.splits)
    from Cons.IH [OF b(2)] b(1) True show ?thesis by auto
  next
    case False
    with Cons.prems have "NewHTTPOutputs_loop q build close name mode opts outputs cfgs w = (Inr os, w')"
      by (auto simp: selected_def split: if_splits)
    from Cons.IH [OF this] False show ?thesis by simp
  qed
qed simp

text \<open>The constructor as the factory uses it: a configuration, and the options for all outputs.\<close>

locale output_factory = output_builder close held used wf build good
  for close :: "'o \<Rightarrow> 'f \<Rightarrow> err \<times> 'o \<times> 'f" and held :: "'o \<Rightarrow> 'r set"
    and used :: "'f \<Rightarrow> 'r set" and wf :: "'f \<Rightarrow> bool"
    and build :: "OutputHTTP option \<times> 'opts \<Rightarrow> 'f \<Rightarrow> 'o result \<times> 'f"
    and good :: "OutputHTTP option \<times> 'opts \<Rightarrow> bool"
begin

text \<open>The resources in use are those from before (\<open>U\<close>) and those the outputs built so far hold.\<close>

lemma NewHTTPOutputs_loop_resources:
  fixes opts
  assumes "\<And>c. good (c, opts)" and "wf w"
    and "used w = U \<union> \<Union> (held ` set outputs)" and "U \<inter> \<Union> (held ` set outputs) = {}"
    and "NewHTTPOutputs_loop q build close name mode opts outputs cfgs w = (r, w')"
  shows "wf w' \<and> (case r of
      Inl e \<Rightarrow> used w' = U
    | Inr os \<Rightarrow> used w' = U \<union> \<Union> (held ` set os) \<and> U \<inter> \<Union> (held ` set os) = {})"
  using assms(2-5)
proof (induction cfgs arbitrary: outputs w)
  case (Cons c cfgs)
  consider (skip) "NewHTTPOutputs_loop q build close name mode opts outputs cfgs w = (r, w')"
    | (err) e w1 where "build (HTTP c, opts) w = (Inl e, w1)"
        "\<exists>ce e'. factory_closeOutputs q close name outputs w1 = (ce, w') \<and> r = Inl e'"
    | (ok) o1 w1 where "build (HTTP c, opts) w = (Inr o1, w1)"
        "NewHTTPOutputs_loop q build close name mode opts (outputs @ [o1]) cfgs w1 = (r, w')"
    using Cons.prems(4) by (auto split: if_splits prod.splits sum.splits)
  then show ?case
  proof cases
    case skip
    with Cons show ?thesis by blast
  next
    case (err e w1)
    from build_error [OF err(1) Cons.prems(1)] have w1: "used w1 = used w" "wf w1" by auto
    from err(2) obtain es os where c: "close_each close outputs w1 = (es, os, w')" and r: "\<exists>e'. r = Inl e'"
      by (auto simp: factory_closeOutputs_def split: prod.splits)
    from close_each_used [OF c] w1 Cons.prems(2,3) have "used w' = U" by auto
    with close_each_wf [OF c w1(2)] r show ?thesis by auto
  next
    case (ok o1 w1)
    from build_ok [OF assms(1) ok(1) Cons.prems(1)] Cons.prems(2)
    have w1: "used w1 = U \<union> \<Union> (held ` set (outputs @ [o1]))" "held o1 \<inter> U = {}" "wf w1" by auto
    with Cons.prems(3) have "U \<inter> \<Union> (held ` set (outputs @ [o1])) = {}" by auto
    from Cons.IH [OF w1(3,1) this ok(2)] show ?thesis .
  qed
qed auto

end

interpretation http_factory: output_factory "Close env" held_resources used_resources fs_wf
  "\<lambda>(config, opts). New env config opts" "\<lambda>(config, opts). \<forall>opt\<in>set opts. config_option opt" for env
  by unfold_locales

lemma NewHTTPOutputs_built:
  assumes "NewHTTPOutputsWithOptions q env cfgs mode opts w = (Inr os, w')"
  shows "list_all2 (\<lambda>c o1. \<exists>w1 w2. New env (HTTP c) opts w1 = (Inr o1, w2)) (filter (selected mode) cfgs) os"
  using NewHTTPOutputs_loop_built assms unfolding NewHTTPOutputsWithOptions_def by force

lemma NewHTTPOutputs_resources:
  assumes "\<forall>opt\<in>set opts. config_option opt" and "fs_wf w"
    and "NewHTTPOutputsWithOptions q env cfgs mode opts w = (r, w')"
  shows "fs_wf w' \<and> (case r of
      Inl e \<Rightarrow> used_resources w' = used_resources w
    | Inr os \<Rightarrow> used_resources w' = used_resources w \<union> \<Union> (held_resources ` set os)
        \<and> used_resources w \<inter> \<Union> (held_resources ` set os) = {})"
  using http_factory.NewHTTPOutputs_loop_resources [of opts w "used_resources w" "[]" q env Name mode cfgs r w'] assms
  by (simp add: NewHTTPOutputsWithOptions_def)

section \<open>Properties\<close>


definition sample_outputs :: "OutputConfig list" where
  "sample_outputs = [\<lparr>DeliveryMode = DeliveryModeGuaranteed, HTTP = Some sample_http\<rparr>,
     \<lparr>DeliveryMode = DeliveryModeBestEffort, HTTP = Some sample_http\<rparr>]"


end
