(* ===== verification/Validation.thy ===== *)
theory Validation
  imports Config
begin

text \<open>
  Validation of the configuration (\<^verbatim>\<open>src/pkg/apis/config/v1alpha1/validation/validation.go\<close>), one
  function per Go function, each returning the list of field errors in the order the code appends
  them.

  Two functions that are not in the repository are arguments of the model: \<^verbatim>\<open>url.Parse\<close>
  (\<open>parse\<close>, the components the code inspects or an error) and \<^verbatim>\<open>apivalidation.ValidateAnnotations\<close>
  of apimachinery (\<open>annErrs\<close>, a list of field errors for the annotations under a path).

  The declarative predicate \<^verbatim>\<open>valid_config\<close> says which configurations are accepted; the lemmas show
  that validation accepts exactly those, and what an accepted configuration guarantees to the code
  that runs on it (exactly one Guaranteed output, each output an HTTP output).
\<close>

section \<open>Field errors (k8s.io/apimachinery field package)\<close>

datatype path_elem = Child string | Index nat | Key string

type_synonym FieldPath = "path_elem list"

datatype bad_value = StringValue string | IntValue int

datatype field_error =
    Required FieldPath string
  | Invalid FieldPath bad_value string
  | NotSupported FieldPath string "string list"

type_synonym ErrorList = "field_error list"

text \<open>The parts of a parsed \<^verbatim>\<open>url.URL\<close> the validation reads.\<close>

record parsed_url =
  Scheme :: string
  RawQuery :: string
  Fragment :: string
  User :: "string option"

type_synonym url_parser = "string \<Rightarrow> parsed_url result"
type_synonym annotation_validator = "go_map \<Rightarrow> FieldPath \<Rightarrow> ErrorList"

section \<open>The validation functions\<close>

definition validLogLevels :: "string list" where
  "validLogLevels = [LogLevelDebug, LogLevelInfo, LogLevelError]"

definition validLogFormats :: "string list" where
  "validLogFormats = [LogFormatJSON, LogFormatText]"

definition validDeliveryModes :: "string list" where
  "validDeliveryModes = [DeliveryModeGuaranteed, DeliveryModeBestEffort]"

lemmas valid_sets = validLogLevels_def validLogFormats_def validDeliveryModes_def

definition validateLogConfiguration :: "Log \<Rightarrow> FieldPath \<Rightarrow> ErrorList" where
  "validateLogConfiguration logConfig fldPath =
     (if Level logConfig \<noteq> '''' then
        (if Level logConfig \<notin> set validLogLevels
         then [NotSupported (fldPath @ [Child ''level'']) (Level logConfig) (set_List validLogLevels)]
         else [])
      else []) @
     (if Format logConfig \<noteq> '''' then
        (if Format logConfig \<notin> set validLogFormats
         then [NotSupported (fldPath @ [Child ''format'']) (Format logConfig) (set_List validLogFormats)]
         else [])
      else [])"

definition validateTLS :: "TLS \<Rightarrow> FieldPath \<Rightarrow> ErrorList" where
  "validateTLS tlsConfig fldPath =
     (if TrimSpace (CertFile tlsConfig) = ''''
      then [Required (fldPath @ [Child ''certFile'']) ''TLS certificate file is required''] else []) @
     (if TrimSpace (KeyFile tlsConfig) = ''''
      then [Required (fldPath @ [Child ''keyFile'']) ''TLS private key file is required''] else []) @
     (if length (ClientCAFile tlsConfig) > 0 \<and> TrimSpace (ClientCAFile tlsConfig) = ''''
      then [Invalid (fldPath @ [Child ''clientCAFile'']) (StringValue (ClientCAFile tlsConfig))
              ''client CA file path cannot be empty when specified''] else [])"

definition validateServer :: "Server \<Rightarrow> FieldPath \<Rightarrow> ErrorList" where
  "validateServer serverConfig fldPath =
     (if Port serverConfig = 0
      then [Required (fldPath @ [Child ''port'']) ''port is required''] else []) @
     (if sint (Port serverConfig) < 0 \<or> sint (Port serverConfig) > 65535
      then [Invalid (fldPath @ [Child ''port'']) (IntValue (sint (Port serverConfig)))
              ''port must be between 0 and 65535''] else []) @
     (if MetricsPort serverConfig = 0
      then [Required (fldPath @ [Child ''metricsPort'']) ''metrics port is required''] else []) @
     (if sint (MetricsPort serverConfig) < 0 \<or> sint (MetricsPort serverConfig) > 65535
      then [Invalid (fldPath @ [Child ''metricsPort'']) (IntValue (sint (MetricsPort serverConfig)))
              ''metrics port must be between 0 and 65535''] else []) @
     validateTLS (ServerTLS serverConfig) (fldPath @ [Child ''tls''])"

definition validateClientTLS :: "ClientTLS \<Rightarrow> FieldPath \<Rightarrow> ErrorList" where
  "validateClientTLS tlsConfig fldPath =
     (let certFileSpecified = TrimSpace (ClientCertFile tlsConfig) \<noteq> '''';
          keyFileSpecified = TrimSpace (ClientKeyFile tlsConfig) \<noteq> ''''
      in (if certFileSpecified \<and> \<not> keyFileSpecified
          then [Required (fldPath @ [Child ''keyFile''])
                  ''keyFile is required when certFile is specified''] else []) @
         (if \<not> certFileSpecified \<and> keyFileSpecified
          then [Required (fldPath @ [Child ''certFile''])
                  ''certFile is required when keyFile is specified''] else []))"

definition validateOutputHTTP :: "url_parser \<Rightarrow> OutputHTTP \<Rightarrow> FieldPath \<Rightarrow> ErrorList" where
  "validateOutputHTTP parse httpOutput fldPath =
     (let urlValue = TrimSpace (URL httpOutput)
      in if urlValue = ''''
         then [Required (fldPath @ [Child ''url'']) ''URL is required for HTTP output'']
         else (case parse urlValue of
                 Inl _ \<Rightarrow> [Invalid (fldPath @ [Child ''url'']) (StringValue urlValue) ''invalid URL format'']
               | Inr outputURL \<Rightarrow>
                   (if Scheme outputURL \<noteq> ''https''
                    then [Invalid (fldPath @ [Child ''url'']) (StringValue urlValue)
                            (''URL scheme must be '' @ [CHR 0x27] @ ''https'' @ [CHR 0x27])] else []) @
                   (if RawQuery outputURL \<noteq> ''''
                    then [Invalid (fldPath @ [Child ''url'']) (StringValue urlValue)
                            ''URL must not contain query parameters''] else []) @
                   (if Fragment outputURL \<noteq> ''''
                    then [Invalid (fldPath @ [Child ''url'']) (StringValue urlValue)
                            ''URL must not contain fragments''] else []) @
                   (if User outputURL \<noteq> None
                    then [Invalid (fldPath @ [Child ''url'']) (StringValue urlValue)
                            ''URL must not contain user information''] else []))) @
     (case HTTPTLS httpOutput of
        None \<Rightarrow> []
      | Some tls \<Rightarrow> validateClientTLS tls (fldPath @ [Child ''tls''])) @
     (let compression = TrimSpace (Compression httpOutput)
      in if compression \<noteq> '''' then
           (if compression \<noteq> ''gzip''
            then [NotSupported (fldPath @ [Child ''compression'']) compression [''gzip'']] else [])
         else [])"

text \<open>
  \<^verbatim>\<open>outputTypes\<close> counts the configured output types. With HTTP as the only type it is 0 or 1; the
  check for more than one is kept as the code has it.
\<close>

definition validateOutput :: "url_parser \<Rightarrow> OutputConfig \<Rightarrow> FieldPath \<Rightarrow> ErrorList" where
  "validateOutput parse output fldPath =
     (if DeliveryMode output \<noteq> '''' then
        (if DeliveryMode output \<notin> set validDeliveryModes
         then [NotSupported (fldPath @ [Child ''deliveryMode'']) (DeliveryMode output)
                 (set_List validDeliveryModes)] else [])
      else []) @
     (let outputTypes = (0::int) + (if HTTP output \<noteq> None then 1 else 0)
      in if outputTypes = 0
         then [Required fldPath
                 (''output type must be specified (currently only '' @ [CHR 0x27] @ ''http'' @
                  [CHR 0x27] @ '' is supported)'')]
         else if outputTypes > 1
         then [Invalid fldPath (IntValue outputTypes) ''exactly one output type must be specified'']
         else (case HTTP output of
                 None \<Rightarrow> []
               | Some http \<Rightarrow> validateOutputHTTP parse http (fldPath @ [Child ''http''])))"

text \<open>The loop of \<^verbatim>\<open>validateOutputs\<close>: its index, the errors appended and the Guaranteed count.\<close>

fun validateOutputs_loop ::
    "url_parser \<Rightarrow> FieldPath \<Rightarrow> nat \<Rightarrow> OutputConfig list \<Rightarrow> ErrorList \<times> int \<Rightarrow> ErrorList \<times> int" where
  "validateOutputs_loop parse fldPath i [] (allErrs, guaranteedCount) = (allErrs, guaranteedCount)"
| "validateOutputs_loop parse fldPath i (output # outs) (allErrs, guaranteedCount) =
     validateOutputs_loop parse fldPath (Suc i) outs
       (allErrs @ validateOutput parse output (fldPath @ [Index i]),
        if DeliveryMode output = DeliveryModeGuaranteed then guaranteedCount + 1 else guaranteedCount)"

definition validateOutputs :: "url_parser \<Rightarrow> OutputConfig list \<Rightarrow> FieldPath \<Rightarrow> ErrorList" where
  "validateOutputs parse outs fldPath =
     (if outs = [] then [Required fldPath ''at least one output must be configured'']
      else
        (let (allErrs, guaranteedCount) = validateOutputs_loop parse fldPath 0 outs ([], 0)
         in allErrs @
            (if length outs = 1 then
               (if DeliveryMode (outs ! 0) \<noteq> DeliveryModeGuaranteed
                then [Invalid (fldPath @ [Index 0, Child ''deliveryMode''])
                        (StringValue (DeliveryMode (outs ! 0)))
                        (''single output must have '' @ [CHR 0x27] @ ''Guaranteed'' @ [CHR 0x27] @
                         '' delivery mode'')] else [])
             else if guaranteedCount = 0
             then [Invalid fldPath (IntValue guaranteedCount)
                     (''exactly one output must have '' @ [CHR 0x27] @ ''Guaranteed'' @ [CHR 0x27] @
                      '' delivery mode when multiple outputs are configured'')]
             else if guaranteedCount > 1
             then [Invalid fldPath (IntValue guaranteedCount)
                     (''only one output can have '' @ [CHR 0x27] @ ''Guaranteed'' @ [CHR 0x27] @
                      '' delivery mode'')]
             else [])))"

definition validateInjectAnnotations ::
    "annotation_validator \<Rightarrow> go_map \<Rightarrow> FieldPath \<Rightarrow> ErrorList" where
  "validateInjectAnnotations annErrs annotations fldPath =
     annErrs annotations fldPath @
     concat (map (\<lambda>(key, value).
                    if TrimSpace value = ''''
                    then [Required (fldPath @ [Key key]) ''annotation value cannot be empty'']
                    else []) annotations)"

definition ValidateAuditlogForwarder ::
    "url_parser \<Rightarrow> annotation_validator \<Rightarrow> AuditlogForwarder \<Rightarrow> ErrorList" where
  "ValidateAuditlogForwarder parse annErrs cfg =
     validateLogConfiguration (LogConfig cfg) [Child ''log''] @
     validateServer (ServerConfig cfg) [Child ''server''] @
     validateOutputs parse (Outputs cfg) [Child ''outputs''] @
     validateInjectAnnotations annErrs (InjectAnnotations cfg) [Child ''injectAnnotations'']"

section \<open>Which configurations are accepted\<close>

definition valid_log :: "Log \<Rightarrow> bool" where
  "valid_log l \<longleftrightarrow> Level l \<in> {'''', ''debug'', ''info'', ''error''} \<and> Format l \<in> {'''', ''json'', ''text''}"

definition valid_port :: "int32 \<Rightarrow> bool" where
  "valid_port p \<longleftrightarrow> 1 \<le> sint p \<and> sint p \<le> 65535"

definition valid_server :: "Server \<Rightarrow> bool" where
  "valid_server s \<longleftrightarrow> valid_port (Port s) \<and> valid_port (MetricsPort s)
     \<and> TrimSpace (CertFile (ServerTLS s)) \<noteq> '''' \<and> TrimSpace (KeyFile (ServerTLS s)) \<noteq> ''''
     \<and> (ClientCAFile (ServerTLS s) = '''' \<or> TrimSpace (ClientCAFile (ServerTLS s)) \<noteq> '''')"

definition valid_url :: "url_parser \<Rightarrow> string \<Rightarrow> bool" where
  "valid_url parse u \<longleftrightarrow> TrimSpace u \<noteq> '''' \<and>
     (\<exists>p. parse (TrimSpace u) = Inr p \<and> Scheme p = ''https'' \<and> RawQuery p = '''' \<and> Fragment p = ''''
          \<and> User p = None)"

definition valid_client_tls :: "ClientTLS \<Rightarrow> bool" where
  "valid_client_tls t \<longleftrightarrow> (TrimSpace (ClientCertFile t) = '''' \<longleftrightarrow> TrimSpace (ClientKeyFile t) = '''')"

definition valid_http :: "url_parser \<Rightarrow> OutputHTTP \<Rightarrow> bool" where
  "valid_http parse h \<longleftrightarrow> valid_url parse (URL h) \<and> pred_option valid_client_tls (HTTPTLS h)
     \<and> TrimSpace (Compression h) \<in> {'''', ''gzip''}"

definition valid_output :: "url_parser \<Rightarrow> OutputConfig \<Rightarrow> bool" where
  "valid_output parse out \<longleftrightarrow> DeliveryMode out \<in> {'''', ''Guaranteed'', ''BestEffort''}
     \<and> (\<exists>h. HTTP out = Some h \<and> valid_http parse h)"

definition is_guaranteed :: "OutputConfig \<Rightarrow> bool" where
  "is_guaranteed out \<longleftrightarrow> DeliveryMode out = DeliveryModeGuaranteed"

definition valid_outputs :: "url_parser \<Rightarrow> OutputConfig list \<Rightarrow> bool" where
  "valid_outputs parse outs \<longleftrightarrow>
     (\<forall>out\<in>set outs. valid_output parse out) \<and> length (filter is_guaranteed outs) = 1"

definition valid_config :: "url_parser \<Rightarrow> annotation_validator \<Rightarrow> AuditlogForwarder \<Rightarrow> bool" where
  "valid_config parse annErrs c \<longleftrightarrow> valid_log (LogConfig c) \<and> valid_server (ServerConfig c)
     \<and> valid_outputs parse (Outputs c)
     \<and> annErrs (InjectAnnotations c) [Child ''injectAnnotations''] = []
     \<and> (\<forall>(k, v)\<in>set (InjectAnnotations c). TrimSpace v \<noteq> '''')"

section \<open>Validation accepts exactly the valid configurations\<close>

lemma validateLog_Nil_iff: "validateLogConfiguration l p = [] \<longleftrightarrow> valid_log l"
  by (auto simp: validateLogConfiguration_def valid_log_def valid_sets log_const_defs)

lemma port_checks_iff: "p \<noteq> 0 \<and> 0 \<le> sint p \<and> sint p \<le> 65535 \<longleftrightarrow> valid_port (p :: int32)"
proof -
  have "p = 0 \<longleftrightarrow> sint p = 0" by (metis signed_word_eqI signed_0)
  then show ?thesis by (auto simp: valid_port_def)
qed

lemma validateTLS_Nil_iff:
  "validateTLS t p = [] \<longleftrightarrow> TrimSpace (CertFile t) \<noteq> '''' \<and> TrimSpace (KeyFile t) \<noteq> '''' \<and>
     (ClientCAFile t = '''' \<or> TrimSpace (ClientCAFile t) \<noteq> '''')"
  by (auto simp: validateTLS_def)

lemma validateServer_Nil_iff: "validateServer s p = [] \<longleftrightarrow> valid_server s"
  unfolding valid_server_def port_checks_iff [symmetric]
  by (auto simp: validateServer_def validateTLS_Nil_iff)

lemma validateClientTLS_Nil_iff: "validateClientTLS t p = [] \<longleftrightarrow> valid_client_tls t"
  by (auto simp: validateClientTLS_def valid_client_tls_def Let_def)

lemma validateOutputHTTP_Nil_iff: "validateOutputHTTP parse h p = [] \<longleftrightarrow> valid_http parse h"
  by (cases "HTTPTLS h"; cases "parse (TrimSpace (URL h))")
     (auto simp: validateOutputHTTP_def valid_http_def valid_url_def Let_def validateClientTLS_Nil_iff)

lemma validateOutput_Nil_iff: "validateOutput parse out p = [] \<longleftrightarrow> valid_output parse out"
  by (cases "HTTP out")
     (auto simp: validateOutput_def valid_output_def validateOutputHTTP_Nil_iff valid_sets
        delivery_mode_defs)

lemma validateOutputs_loop_count:
  "snd (validateOutputs_loop parse p i outs (errs, n)) = n + int (length (filter is_guaranteed outs))"
  by (induction outs arbitrary: i errs n) (auto simp: is_guaranteed_def)

lemma validateOutputs_loop_Nil_iff:
  "fst (validateOutputs_loop parse p i outs (errs, n)) = [] \<longleftrightarrow>
     errs = [] \<and> (\<forall>out\<in>set outs. valid_output parse out)"
  by (induction outs arbitrary: i errs n) (auto simp: validateOutput_Nil_iff)

lemma validateOutputs_Nil_iff: "validateOutputs parse outs p = [] \<longleftrightarrow> valid_outputs parse outs"
proof -
  let ?r = "validateOutputs_loop parse p 0 outs ([], 0)"
  let ?n = "length (filter is_guaranteed outs)"
  have r: "?r = (fst ?r, int ?n)"
    using validateOutputs_loop_count [of parse p 0 outs "[]" 0] by (cases ?r) simp
  have errs: "fst ?r = [] \<longleftrightarrow> (\<forall>out\<in>set outs. valid_output parse out)"
    by (simp add: validateOutputs_loop_Nil_iff)
  have one: "?n = 1 \<longleftrightarrow> DeliveryMode (outs ! 0) = DeliveryModeGuaranteed" if "length outs = 1"
    using that by (cases outs) (auto simp: is_guaranteed_def)
  have few: "?n = 1" if "?n \<noteq> 0" "\<not> 1 < ?n"
    using that by linarith
  show ?thesis
  proof (cases "outs = []")
    case True
    then show ?thesis by (simp add: validateOutputs_def valid_outputs_def)
  next
    case False
    then show ?thesis
      using one few unfolding validateOutputs_def valid_outputs_def errs [symmetric]
      by (subst r) (auto split: if_splits)
  qed
qed

lemma validateInjectAnnotations_Nil_iff:
  "validateInjectAnnotations annErrs m p = [] \<longleftrightarrow> annErrs m p = [] \<and> (\<forall>(k, v)\<in>set m. TrimSpace v \<noteq> '''')"
  by (auto simp: validateInjectAnnotations_def split: if_splits prod.splits)

lemmas validation_Nil_iffs =
  validateLog_Nil_iff validateServer_Nil_iff validateOutputs_Nil_iff validateInjectAnnotations_Nil_iff

text \<open>
  Property C5. Validation returns no error exactly for the configurations that satisfy the declarative
  predicate \<^const>\<open>valid_config\<close>: a known log level and format, both ports in 1..65535, server
  certificate and key given, every output an HTTP output with an https URL free of query, fragment
  and user information, matching client certificate and key, a known compression and delivery mode,
  exactly one Guaranteed output, and no empty annotation value. This holds for every URL parser and
  every annotation validator.
\<close>

theorem ValidateAuditlogForwarder_iff:
  "ValidateAuditlogForwarder parse annErrs cfg = [] \<longleftrightarrow> valid_config parse annErrs cfg"
  by (auto simp: ValidateAuditlogForwarder_def valid_config_def validation_Nil_iffs)

section \<open>Defaulting and validation together\<close>

lemma valid_output_mode_update:
  "m \<in> {DeliveryModeGuaranteed, DeliveryModeBestEffort} \<Longrightarrow> DeliveryMode out = '''' \<Longrightarrow>
     valid_output parse (out\<lparr>DeliveryMode := m\<rparr>) = valid_output parse out"
  by (auto simp: valid_output_def delivery_mode_defs)

lemma SetDefaults_Outputs_single:
  "SetDefaults_Outputs [out] =
     [if DeliveryMode out = '''' then out\<lparr>DeliveryMode := DeliveryModeGuaranteed\<rparr> else out]"
  by (simp add: SetDefaults_Outputs_def)

lemma SetDefaults_Outputs_many:
  "length outs \<noteq> 1 \<Longrightarrow> SetDefaults_Outputs outs =
     map (\<lambda>out. if DeliveryMode out = '''' then out\<lparr>DeliveryMode := DeliveryModeBestEffort\<rparr> else out) outs"
  by (simp add: SetDefaults_Outputs_def)

lemma valid_outputs_defaulted_many:
  assumes "length outs \<noteq> 1"
  shows "valid_outputs parse (SetDefaults_Outputs outs) \<longleftrightarrow> valid_outputs parse outs"
proof -
  let ?f = "\<lambda>out. if DeliveryMode out = '''' then out\<lparr>DeliveryMode := DeliveryModeBestEffort\<rparr> else out"
  have g: "is_guaranteed (?f out) = is_guaranteed out"
    and v: "valid_output parse (?f out) = valid_output parse out" for out
    by (auto simp: is_guaranteed_def delivery_mode_defs valid_output_mode_update)
  show ?thesis
    unfolding valid_outputs_def SetDefaults_Outputs_many [OF assms]
      length_filter_map_invariant [of is_guaranteed ?f, OF g]
      ball_set_map_invariant [of "valid_output parse" ?f, OF v] ..
qed

text \<open>
  Which lists of outputs survive defaulting followed by validation: every output on its
  own is well formed, and either there is a single output whose delivery mode is left out or
  Guaranteed, or there are several and exactly one of them says Guaranteed explicitly. In particular
  several outputs with no explicit mode are rejected, a single one is accepted.
\<close>

lemma defaulted_outputs_accepted_iff:
  "validateOutputs parse (SetDefaults_Outputs outs) p = [] \<longleftrightarrow>
     (\<forall>out\<in>set outs. valid_output parse out) \<and>
     (if length outs = 1 then DeliveryMode (outs ! 0) \<in> {'''', DeliveryModeGuaranteed}
      else length (filter is_guaranteed outs) = 1)"
proof (cases "length outs = 1")
  case True
  then obtain out where "outs = [out]"
    by (auto simp: length_Suc_conv)
  then show ?thesis
    by (auto simp: validateOutputs_Nil_iff SetDefaults_Outputs_single valid_outputs_def
        is_guaranteed_def delivery_mode_defs valid_output_mode_update)
next
  case False
  then show ?thesis
    unfolding validateOutputs_Nil_iff valid_outputs_defaulted_many [OF False]
    by (simp add: valid_outputs_def)
qed

text \<open>
  The generated defaulter, which calls the nested defaulters twice, computes the same as
  the handwritten one; it fills a field only when it holds the zero value, and applying it to its own
  result changes nothing.
\<close>

lemma SetObjectDefaults_fills_zero_values:
  "SetObjectDefaults_AuditlogForwarder (SetObjectDefaults_AuditlogForwarder cfg)
     = SetObjectDefaults_AuditlogForwarder cfg
   \<and> (let d = SetObjectDefaults_AuditlogForwarder cfg
      in Level (LogConfig d) = (if Level (LogConfig cfg) = '''' then ''info'' else Level (LogConfig cfg))
       \<and> Format (LogConfig d) = (if Format (LogConfig cfg) = '''' then ''json'' else Format (LogConfig cfg))
       \<and> ServerConfig d = (ServerConfig cfg)
           \<lparr>Port := (if Port (ServerConfig cfg) = 0 then 10443 else Port (ServerConfig cfg)),
            MetricsPort := (if MetricsPort (ServerConfig cfg) = 0 then 8080
                            else MetricsPort (ServerConfig cfg))\<rparr>
       \<and> map HTTP (Outputs d) = map HTTP (Outputs cfg)
       \<and> (\<forall>i < length (Outputs cfg). DeliveryMode (Outputs d ! i) =
            (if DeliveryMode (Outputs cfg ! i) \<noteq> '''' then DeliveryMode (Outputs cfg ! i)
             else if length (Outputs cfg) = 1 then ''Guaranteed'' else ''BestEffort''))
       \<and> InjectAnnotations d = InjectAnnotations cfg)"
proof -
  have "ServerConfig (SetDefaults_AuditlogForwarder cfg) = (ServerConfig cfg)
           \<lparr>Port := (if Port (ServerConfig cfg) = 0 then 10443 else Port (ServerConfig cfg)),
            MetricsPort := (if MetricsPort (ServerConfig cfg) = 0 then 8080
                            else MetricsPort (ServerConfig cfg))\<rparr>"
    by (rule Server.equality) simp_all
  moreover have "map HTTP (Outputs (SetDefaults_AuditlogForwarder cfg)) = map HTTP (Outputs cfg)"
    by (rule nth_equalityI) (auto simp: SetDefaults_Outputs_nth)
  ultimately show ?thesis
    by (simp add: SetObjectDefaults_eq SetDefaults_Outputs_nth Let_def log_const_defs delivery_mode_defs)
qed

section \<open>What an accepted configuration guarantees\<close>

lemma valid_outputs_split:
  assumes "valid_outputs parse outs"
  obtains pre g post h where "outs = pre @ g # post" and "is_guaranteed g" and "HTTP g = Some h"
    and "\<forall>out\<in>set pre \<union> set post. \<not> is_guaranteed out \<and> HTTP out \<noteq> None"
proof -
  from assms have "length (filter is_guaranteed outs) = 1" and ok: "\<forall>out\<in>set outs. valid_output parse out"
    by (auto simp: valid_outputs_def)
  then obtain pre g post where g: "outs = pre @ g # post" "is_guaranteed g"
    "\<forall>y\<in>set pre. \<not> is_guaranteed y" "\<forall>z\<in>set post. \<not> is_guaranteed z"
    by (elim filter_length_one)
  with ok obtain h where "HTTP g = Some h" by (auto simp: valid_output_def)
  with g ok show ?thesis
    by (intro that [of pre g post h]) (auto simp: valid_output_def)
qed

lemma ValidateAuditlogForwarder_NilD:
  assumes "ValidateAuditlogForwarder parse annErrs cfg = []"
  shows "valid_log (LogConfig cfg)" and "valid_server (ServerConfig cfg)"
    and "valid_outputs parse (Outputs cfg)"
  using assms by (auto simp: ValidateAuditlogForwarder_def validation_Nil_iffs)

section \<open>A concrete instance\<close>

definition sample_parse :: url_parser where
  "sample_parse u = Inr \<lparr>Scheme = ''https'', RawQuery = '''', Fragment = '''', User = None\<rparr>"

definition sample_modeless :: OutputConfig where
  "sample_modeless = \<lparr>DeliveryMode = '''', HTTP = Some \<lparr>URL = ''https://a'', HTTPTLS = None, Compression = ''''\<rparr>\<rparr>"

lemma sample_modeless_valid: "valid_output sample_parse sample_modeless"
proof -
  have "TrimSpace ''https://a'' \<noteq> ''''" "TrimSpace '''' = ''''" by code_simp+
  then show ?thesis
    by (simp add: valid_output_def sample_modeless_def valid_http_def valid_url_def sample_parse_def)
qed

theorem defaulted_outputs_accepted_iff_witness:
  "validateOutputs sample_parse (SetDefaults_Outputs [sample_modeless]) [] = []
   \<and> validateOutputs sample_parse (SetDefaults_Outputs [sample_modeless, sample_modeless]) [] \<noteq> []"
  using defaulted_outputs_accepted_iff [of sample_parse "[sample_modeless]" "[]"]
    defaulted_outputs_accepted_iff [of sample_parse "[sample_modeless, sample_modeless]" "[]"] sample_modeless_valid
  by (simp add: is_guaranteed_def sample_modeless_def delivery_mode_defs)

end
