(* ===== verification/Options.thy ===== *)
theory Options
  imports Factory Validation
begin

text \<open>
  The command's options, \<^verbatim>\<open>src/cmd/auditlog-forwarder/app/options/options.go\<close>: loading, validating and
  applying the configuration.

  What the file calls outside the repository is the record \<open>app_env\<close>: the file system and certificate
  parsers (\<^typ>\<open>sys_env\<close>), the configuration decoder of k8s.io/apimachinery (it fills the object it is
  given, and reports an error), the URL parser, the annotation validator, the rendering of an error list
  and of \<^verbatim>\<open>%q\<close>. A nil dereference is the value \<open>Panic\<close>.
\<close>

section \<open>Types\<close>

datatype 'a go_outcome = Panic | Return 'a

record app_env =
  ae_sys :: sys_env
  ae_decodeInto :: "bytes \<Rightarrow> err \<times> AuditlogForwarder"
  ae_parse :: url_parser
  ae_annotations :: annotation_validator
  ae_aggregate :: "ErrorList \<Rightarrow> go_error"
  ae_quote :: "string \<Rightarrow> string"

record Options =
  ConfigFile :: string
  opt_Config :: "AuditlogForwarder option"

record Serving =
  TLSConfig :: "tls_config option"
  ServingAddress :: string
  MetricsAddress :: string

record AppConfig =
  cfg_Serving :: Serving
  cfg_InjectAnnotations :: go_map
  cfg_Outputs :: "HttpOutput list"
  OutputsGuaranteed :: "HttpOutput list"
  OutputsBestEffort :: "HttpOutput list"

definition empty_AppConfig :: AppConfig where
  "empty_AppConfig = \<lparr>cfg_Serving = \<lparr>TLSConfig = None, ServingAddress = '''', MetricsAddress = ''''\<rparr>,
     cfg_InjectAnnotations = [], cfg_Outputs = [], OutputsGuaranteed = [], OutputsBestEffort = []\<rparr>"

section \<open>Complete, Validate, LogConfig\<close>

definition NewOptions :: Options where
  "NewOptions = \<lparr>ConfigFile = '''', opt_Config = None\<rparr>"

definition Complete :: "app_env \<Rightarrow> Options \<Rightarrow> err \<times> Options" where
  "Complete env o1 =
     (if ConfigFile o1 = '''' then (Some (Errors_New ''missing config file''), o1)
      else
        (case ReadFile (ae_sys env) (Clean (ConfigFile o1)) of
           Inl e \<Rightarrow> (Some (wrapf ''error reading config file: '' e), o1)
         | Inr data \<Rightarrow>
             (case ae_decodeInto env data of
                (Some e, cfg) \<Rightarrow> (Some (wrapf ''error decoding config: '' e), o1\<lparr>opt_Config := Some cfg\<rparr>)
              | (None, cfg) \<Rightarrow> (None, o1\<lparr>opt_Config := Some cfg\<rparr>))))"

definition Validate :: "app_env \<Rightarrow> Options \<Rightarrow> err go_outcome" where
  "Validate env o1 =
     (case opt_Config o1 of
        None \<Rightarrow> Panic
      | Some cfg \<Rightarrow>
          (let errs = ValidateAuditlogForwarder (ae_parse env) (ae_annotations env) cfg
           in if length errs > 0 then Return (Some (ae_aggregate env errs)) else Return None))"

definition Options_LogConfig :: "Options \<Rightarrow> (string \<times> string) go_outcome" where
  "Options_LogConfig o1 =
     (case opt_Config o1 of
        None \<Rightarrow> Panic
      | Some cfg \<Rightarrow> Return (Level (LogConfig cfg), Format (LogConfig cfg)))"

section \<open>ApplyTo\<close>

definition configureClientAuth :: "sys_env \<Rightarrow> tls_config \<Rightarrow> string \<Rightarrow> tls_config result" where
  "configureClientAuth env tlsConfig clientCAFile =
     (case ReadFile env (Clean clientCAFile) of
        Inl e \<Rightarrow> Inl (wrapf ''failed to read CA file: '' e)
      | Inr caCert \<Rightarrow>
          (let caCertPool = PEMCerts env caCert
           in if caCertPool = []
              then Inl (Errors_New (''failed to parse CA certificate from '' @ clientCAFile))
              else Inr (tlsConfig\<lparr>ClientCAs := Some caCertPool, ClientAuth := RequireAndVerifyClientCert\<rparr>)))"

definition applyServerConfigToServing :: "sys_env \<Rightarrow> Server \<Rightarrow> Serving \<Rightarrow> err \<times> Serving" where
  "applyServerConfigToServing env serverConfig serving =
     (let serving = serving\<lparr>ServingAddress :=
            JoinHostPort (Address serverConfig) (FormatInt (sint (Port serverConfig)))\<rparr>
      in case LoadX509KeyPair env (CertFile (ServerTLS serverConfig)) (KeyFile (ServerTLS serverConfig)) of
           Inl e \<Rightarrow> (Some (wrapf ''failed to parse server certificates: '' e), serving)
         | Inr serverCert \<Rightarrow>
             (let tlsConfig = base_tls_config\<lparr>Certificates := [serverCert]\<rparr>
              in if ClientCAFile (ServerTLS serverConfig) \<noteq> '''' then
                   (case configureClientAuth env tlsConfig (ClientCAFile (ServerTLS serverConfig)) of
                      Inl e \<Rightarrow> (Some (wrapf ''failed to configure client certificate verification: '' e), serving)
                    | Inr tlsConfig \<Rightarrow> (None, serving\<lparr>TLSConfig := Some tlsConfig\<rparr>))
                 else (None, serving\<lparr>TLSConfig := Some tlsConfig\<rparr>)))"

definition guaranteed_options :: "logger \<Rightarrow> http_option list" where
  "guaranteed_options l = [WithOutputLogger (WithName l ''output'')]"

definition best_effort_options :: "logger \<Rightarrow> http_option list" where
  "best_effort_options l =
     [WithMaxSendAttempts 6, WithBaseBackoff (1 * Second), WithMaxBackoff (6 * Second),
      WithOutputLogger (WithName l ''output'')]"

text \<open>The tail of \<^verbatim>\<open>ApplyTo\<close>, from the construction of the outputs on.\<close>

definition applyOutputs ::
    "app_env \<Rightarrow> AuditlogForwarder \<Rightarrow> logger \<Rightarrow> AppConfig \<Rightarrow> fs_world \<Rightarrow> err \<times> AppConfig \<times> fs_world" where
  "applyOutputs env cfg l server w =
     (case NewHTTPOutputsWithOptions (ae_quote env) (ae_sys env) (Outputs cfg) DeliveryModeGuaranteed
             (guaranteed_options l) w of
        (Inl e, w) \<Rightarrow> (Some (wrapf ''failed to create Guaranteed outputs: '' e), server, w)
      | (Inr guaranteedOutputs, w) \<Rightarrow>
          (case NewHTTPOutputsWithOptions (ae_quote env) (ae_sys env) (Outputs cfg) DeliveryModeBestEffort
                  (best_effort_options l) w of
             (Inl e, w) \<Rightarrow>
               (case close_each (Close (ae_sys env)) guaranteedOutputs w of
                  (es, os, w) \<Rightarrow>
                    (errors_Join
                       [Some (wrapf ''failed to create BestEffort outputs: '' e),
                        errors_Join (close_errors (ae_quote env) Name ''failed to close guaranteed output ''
                          guaranteedOutputs es)],
                     server, w))
           | (Inr bestEffortOutputs, w) \<Rightarrow>
               (None, server\<lparr>OutputsGuaranteed := guaranteedOutputs, OutputsBestEffort := bestEffortOutputs\<rparr>, w)))"

definition ApplyTo ::
    "app_env \<Rightarrow> Options \<Rightarrow> logger \<Rightarrow> AppConfig \<Rightarrow> fs_world \<Rightarrow> (err \<times> AppConfig \<times> fs_world) go_outcome" where
  "ApplyTo env o1 l server w =
     (case opt_Config o1 of
        None \<Rightarrow> Panic
      | Some cfg \<Rightarrow>
          (let serverConfig = ServerConfig cfg
           in case applyServerConfigToServing (ae_sys env) serverConfig (cfg_Serving server) of
                (Some e, serving) \<Rightarrow> Return (Some e, server\<lparr>cfg_Serving := serving\<rparr>, w)
              | (None, serving) \<Rightarrow>
                  (let serving = serving\<lparr>MetricsAddress :=
                         JoinHostPort (Address serverConfig) (FormatInt (sint (MetricsPort serverConfig)))\<rparr>;
                       server = server\<lparr>cfg_Serving := serving, cfg_InjectAnnotations := InjectAnnotations cfg\<rparr>
                   in Return (applyOutputs env cfg l server w))))"


section \<open>Facts\<close>

lemma options_are_config_options:
  "\<forall>opt\<in>set (guaranteed_options l). config_option opt" "\<forall>opt\<in>set (best_effort_options l). config_option opt"
  by (auto simp: guaranteed_options_def best_effort_options_def)

text \<open>How an output built with each of the two option lists is tuned, and that it is ready to use.\<close>

definition tuned :: "int \<Rightarrow> duration \<Rightarrow> duration \<Rightarrow> OutputHTTP \<Rightarrow> HttpOutput \<Rightarrow> bool" where
  "tuned n base mx cfg o1 \<longleftrightarrow> out_url o1 = URL cfg \<and> out_compression o1 = Compression cfg
     \<and> maxSendAttempts o1 = n \<and> baseBackoff o1 = base \<and> maxBackoff o1 = mx
     \<and> out_client o1 \<noteq> None \<and> \<not> closeOnce o1"

lemma startTLSWatcher_tuned:
  "startTLSWatcher env o1 tls w = (None, o2, w') \<Longrightarrow> tuned n b m cfg o1 \<Longrightarrow> tuned n b m cfg o2"
  by (drule startTLSWatcher_ok) (auto simp: tuned_def with_watcher_def)

lemma New_tuned:
  assumes "New env config opts w = (Inr o1, w')"
    and "\<And>cfg client o2. apply_options opts (new_output cfg client) = Inr o2 \<Longrightarrow> tuned n b m cfg o2"
  shows "\<exists>cfg. config = Some cfg \<and> tuned n b m cfg o1"
proof -
  from assms(1) obtain cfg client o2 where c: "config = Some cfg"
    and o2: "apply_options opts (new_output cfg client) = Inr o2"
    and st: "case HTTPTLS cfg of None \<Rightarrow> o1 = o2 \<and> w' = w
         | Some tls \<Rightarrow> startTLSWatcher env o2 tls w = (None, o1, w')"
    by (rule New_InrE)
  from assms(2) [OF o2] st have "tuned n b m cfg o1"
    by (auto split: option.splits intro: startTLSWatcher_tuned)
  with c show ?thesis by blast
qed

lemma New_guaranteed:
  "New env config (guaranteed_options l) w = (Inr o1, w') \<Longrightarrow>
     \<exists>cfg. config = Some cfg \<and> tuned 4 (500 * Millisecond) (3 * Second) cfg o1"
  by (erule New_tuned) (auto simp: guaranteed_options_def option_defs new_output_def tuned_def)

lemma New_best_effort:
  "New env config (best_effort_options l) w = (Inr o1, w') \<Longrightarrow>
     \<exists>cfg. config = Some cfg \<and> tuned 6 (1 * Second) (6 * Second) cfg o1"
  by (erule New_tuned)
     (auto simp: best_effort_options_def option_defs new_output_def tuned_def split: if_splits)

lemma applyOutputs_E:
  assumes "applyOutputs env cfg l server w = (e, server', w')"
  obtains (guaranteed_failed) e1 where "e \<noteq> None" and "server' = server"
      and "NewHTTPOutputsWithOptions (ae_quote env) (ae_sys env) (Outputs cfg) DeliveryModeGuaranteed
             (guaranteed_options l) w = (Inl e1, w')"
  | (best_effort_failed) gs w1 e2 w2 es os where "e \<noteq> None" and "server' = server"
      and "NewHTTPOutputsWithOptions (ae_quote env) (ae_sys env) (Outputs cfg) DeliveryModeGuaranteed
             (guaranteed_options l) w = (Inr gs, w1)"
      and "NewHTTPOutputsWithOptions (ae_quote env) (ae_sys env) (Outputs cfg) DeliveryModeBestEffort
             (best_effort_options l) w1 = (Inl e2, w2)"
      and "close_each (Close (ae_sys env)) gs w2 = (es, os, w')"
  | (ok) gs w1 bs where "e = None" and "server' = server\<lparr>OutputsGuaranteed := gs, OutputsBestEffort := bs\<rparr>"
      and "NewHTTPOutputsWithOptions (ae_quote env) (ae_sys env) (Outputs cfg) DeliveryModeGuaranteed
             (guaranteed_options l) w = (Inr gs, w1)"
      and "NewHTTPOutputsWithOptions (ae_quote env) (ae_sys env) (Outputs cfg) DeliveryModeBestEffort
             (best_effort_options l) w1 = (Inr bs, w')"
  using assms
  by (auto simp: applyOutputs_def errors_Join_def Let_def split: prod.splits sum.splits)

lemma ApplyTo_E:
  assumes "ApplyTo env o1 l server w = Return (e, server', w')"
  obtains (serving_failed) cfg e1 serving where "opt_Config o1 = Some cfg" and "e = Some e1" and "w' = w"
      and "applyServerConfigToServing (ae_sys env) (ServerConfig cfg) (cfg_Serving server) = (Some e1, serving)"
  | (outputs) cfg serving server1 where "opt_Config o1 = Some cfg"
      and "applyServerConfigToServing (ae_sys env) (ServerConfig cfg) (cfg_Serving server) = (None, serving)"
      and "server1 = server\<lparr>cfg_Serving := serving\<lparr>MetricsAddress :=
             JoinHostPort (Address (ServerConfig cfg)) (FormatInt (sint (MetricsPort (ServerConfig cfg))))\<rparr>,
             cfg_InjectAnnotations := InjectAnnotations cfg\<rparr>"
      and "applyOutputs env cfg l server1 w = (e, server', w')"
  using assms by (auto simp: ApplyTo_def Let_def split: option.splits prod.splits)

lemma applyOutputs_resources:
  assumes "applyOutputs env cfg l server w = (e, server', w')" and "fs_wf w"
  shows "fs_wf w' \<and> (if e = None
    then used_resources w' = used_resources w
           \<union> \<Union> (held_resources ` set (OutputsGuaranteed server' @ OutputsBestEffort server'))
       \<and> used_resources w \<inter> \<Union> (held_resources ` set (OutputsGuaranteed server' @ OutputsBestEffort server')) = {}
    else used_resources w' = used_resources w)"
  using assms(1)
proof (cases rule: applyOutputs_E)
  case (guaranteed_failed e1)
  with NewHTTPOutputs_resources [OF options_are_config_options(1) assms(2) guaranteed_failed(3)] show ?thesis by auto
next
  case (best_effort_failed gs w1 e2 w2 es os)
  note r1 = NewHTTPOutputs_resources [OF options_are_config_options(1) assms(2) best_effort_failed(3)]
  then have "fs_wf w1" by simp
  note r2 = NewHTTPOutputs_resources [OF options_are_config_options(2) this best_effort_failed(4)]
  from http.close_each_used [OF best_effort_failed(5)] http.close_each_wf [OF best_effort_failed(5)] r1 r2
    best_effort_failed(1)
  show ?thesis by auto
next
  case (ok gs w1 bs)
  note r1 = NewHTTPOutputs_resources [OF options_are_config_options(1) assms(2) ok(3)]
  then have "fs_wf w1" by simp
  from NewHTTPOutputs_resources [OF options_are_config_options(2) this ok(4)] r1 ok(1,2)
  show ?thesis by auto
qed


lemma ApplyTo_returns:
  assumes "opt_Config o1 = Some cfg"
  obtains e server' w' where "ApplyTo env o1 l server w = Return (e, server', w')"
proof (cases "ApplyTo env o1 l server w")
  case Panic
  with assms show ?thesis by (auto simp: ApplyTo_def Let_def split: prod.splits option.splits)
next
  case (Return r)
  then show ?thesis using that by (cases r) auto
qed

lemma ApplyTo_resources:
  assumes "ApplyTo env o1 l server w = Return (e, server', w')" and "fs_wf w"
  shows "if e = None
    then used_resources w' = used_resources w
           \<union> \<Union> (held_resources ` set (OutputsGuaranteed server' @ OutputsBestEffort server'))
       \<and> used_resources w \<inter> \<Union> (held_resources ` set (OutputsGuaranteed server' @ OutputsBestEffort server')) = {}
    else used_resources w' = used_resources w"
  using assms(1)
proof (cases rule: ApplyTo_E)
  case (serving_failed cfg e1 serving)
  then show ?thesis by simp
next
  case (outputs cfg serving server1)
  from applyOutputs_resources [OF outputs(4) assms(2)] show ?thesis by blast
qed

lemma defaulted_mode: "out \<in> set (SetDefaults_Outputs outs) \<Longrightarrow> DeliveryMode out \<noteq> ''''"
  by (auto simp: in_set_conv_nth SetDefaults_Outputs_nth delivery_mode_defs split: if_splits)

text \<open>The outputs of a defaulted, valid configuration: one guaranteed, all others best-effort.\<close>

lemma defaulted_valid_split:
  assumes "valid_outputs parse (SetDefaults_Outputs outs)"
  obtains pre g post where "SetDefaults_Outputs outs = pre @ g # post"
    and "filter (selected DeliveryModeGuaranteed) (SetDefaults_Outputs outs) = [g]"
    and "filter (selected DeliveryModeBestEffort) (SetDefaults_Outputs outs) = pre @ post"
    and "DeliveryMode g = DeliveryModeGuaranteed"
    and "\<forall>out\<in>set (pre @ post). DeliveryMode out = DeliveryModeBestEffort"
proof -
  from assms obtain pre g post h where sp: "SetDefaults_Outputs outs = pre @ g # post" "is_guaranteed g" "HTTP g = Some h"
    "\<forall>out\<in>set pre \<union> set post. \<not> is_guaranteed out \<and> HTTP out \<noteq> None" by (rule valid_outputs_split)
  have be: "DeliveryMode out = DeliveryModeBestEffort" if "out \<in> set pre \<union> set post" for out
  proof -
    have "out \<in> set (SetDefaults_Outputs outs)" using that sp(1) by auto
    with assms defaulted_mode [of out outs] sp(4) that show ?thesis
      by (auto simp: valid_outputs_def valid_output_def is_guaranteed_def delivery_mode_defs)
  qed
  have "filter (selected DeliveryModeGuaranteed) xs = []" if "set xs \<subseteq> set pre \<union> set post" for xs
    using that sp(4) by (auto simp: selected_def is_guaranteed_def filter_empty_conv)
  then have "filter (selected DeliveryModeGuaranteed) (SetDefaults_Outputs outs) = [g]"
    using sp(1-3) by (simp add: selected_def is_guaranteed_def)
  moreover have "filter (selected DeliveryModeBestEffort) (SetDefaults_Outputs outs) = pre @ post"
    using sp be by (auto simp: selected_def is_guaranteed_def delivery_mode_defs intro!: filter_True)
  ultimately show ?thesis using that sp be by (auto simp: is_guaranteed_def)
qed

lemma built_tuned:
  assumes "NewHTTPOutputsWithOptions q env cfgs mode opts w = (Inr os, w')"
    and "\<And>c o1 w1 w2. New env c opts w1 = (Inr o1, w2) \<Longrightarrow> \<exists>cfg. c = Some cfg \<and> tuned n b m cfg o1"
  shows "list_all2 (\<lambda>c o1. tuned n b m (the (HTTP c)) o1) (filter (selected mode) cfgs) os"
  using NewHTTPOutputs_built [OF assms(1)] by (rule list_all2_mono) (auto dest: assms(2))

lemma built_guaranteed:
  "NewHTTPOutputsWithOptions q env cfgs mode (guaranteed_options l) w = (Inr os, w') \<Longrightarrow>
   list_all2 (\<lambda>c. tuned 4 (500 * Millisecond) (3 * Second) (the (HTTP c))) (filter (selected mode) cfgs) os"
  by (erule built_tuned) (erule New_guaranteed)

lemma built_best_effort:
  "NewHTTPOutputsWithOptions q env cfgs mode (best_effort_options l) w = (Inr os, w') \<Longrightarrow>
   list_all2 (\<lambda>c. tuned 6 (1 * Second) (6 * Second) (the (HTTP c))) (filter (selected mode) cfgs) os"
  by (erule built_tuned) (erule New_best_effort)

lemma Validate_ok:
  assumes "Validate env o1 = Return None" and "opt_Config o1 = Some cfg"
  shows "valid_server (ServerConfig cfg)" and "valid_outputs (ae_parse env) (Outputs cfg)"
  using assms by (auto simp: Validate_def Let_def split: if_splits dest: ValidateAuditlogForwarder_NilD)

text \<open>The documented behaviour of the decoder: what it decodes went through the registered defaulter.\<close>

definition decoder_defaults :: "(bytes \<Rightarrow> err \<times> AuditlogForwarder) \<Rightarrow> bool" where
  "decoder_defaults d \<longleftrightarrow> (\<forall>data cfg. d data = (None, cfg) \<longrightarrow> (\<exists>c. cfg = SetObjectDefaults_AuditlogForwarder c))"

lemma Complete_ok:
  assumes "Complete env o1 = (None, o2)" and "decoder_defaults (ae_decodeInto env)"
  obtains c where "opt_Config o2 = Some (SetDefaults_AuditlogForwarder c)"
proof -
  from assms(1) obtain data cfg where "ae_decodeInto env data = (None, cfg)" "opt_Config o2 = Some cfg"
    by (auto simp: Complete_def split: if_splits sum.splits prod.splits option.splits)
  with assms(2) that show ?thesis by (auto simp: decoder_defaults_def SetObjectDefaults_eq)
qed

lemma ApplyTo_outputs_built:
  assumes "decoder_defaults (ae_decodeInto env)" and "Complete env o0 = (None, o1)"
    and "Validate env o1 = Return None" and "ApplyTo env o1 l server w = Return (None, server', w')"
  obtains cfg pre g post out where "opt_Config o1 = Some cfg" and "Outputs cfg = pre @ g # post"
    and "DeliveryMode g = DeliveryModeGuaranteed"
    and "\<forall>c\<in>set (pre @ post). DeliveryMode c = DeliveryModeBestEffort"
    and "OutputsGuaranteed server' = [out]" and "tuned 4 (500 * Millisecond) (3 * Second) (the (HTTP g)) out"
    and "list_all2 (\<lambda>c out. tuned 6 (1 * Second) (6 * Second) (the (HTTP c)) out) (pre @ post)
           (OutputsBestEffort server')"
proof -
  from assms(2,1) obtain c where c: "opt_Config o1 = Some (SetDefaults_AuditlogForwarder c)" by (rule Complete_ok)
  have v: "valid_outputs (ae_parse env) (SetDefaults_Outputs (Outputs c))"
    using Validate_ok(2) [OF assms(3) c] by simp
  from v obtain pre g post where sp: "SetDefaults_Outputs (Outputs c) = pre @ g # post"
    "filter (selected DeliveryModeGuaranteed) (SetDefaults_Outputs (Outputs c)) = [g]"
    "filter (selected DeliveryModeBestEffort) (SetDefaults_Outputs (Outputs c)) = pre @ post"
    "DeliveryMode g = DeliveryModeGuaranteed" "\<forall>out\<in>set (pre @ post). DeliveryMode out = DeliveryModeBestEffort"
    by (rule defaulted_valid_split)
  from assms(4) obtain server1 where
    "applyOutputs env (SetDefaults_AuditlogForwarder c) l server1 w = (None, server', w')"
    using c by (cases rule: ApplyTo_E) auto
  then obtain gs w1 bs where a: "server' = server1\<lparr>OutputsGuaranteed := gs, OutputsBestEffort := bs\<rparr>"
    "NewHTTPOutputsWithOptions (ae_quote env) (ae_sys env) (SetDefaults_Outputs (Outputs c)) DeliveryModeGuaranteed
       (guaranteed_options l) w = (Inr gs, w1)"
    "NewHTTPOutputsWithOptions (ae_quote env) (ae_sys env) (SetDefaults_Outputs (Outputs c)) DeliveryModeBestEffort
       (best_effort_options l) w1 = (Inr bs, w')"
    by (cases rule: applyOutputs_E) auto
  from built_guaranteed [OF a(2)] sp(2) obtain out where
    "gs = [out]" "tuned 4 (500 * Millisecond) (3 * Second) (the (HTTP g)) out"
    by (auto simp: list_all2_Cons1)
  moreover from built_best_effort [OF a(3)] sp(3) have
    "list_all2 (\<lambda>c out. tuned 6 (1 * Second) (6 * Second) (the (HTTP c)) out) (pre @ post) bs" by simp
  ultimately show ?thesis
    using that [of "SetDefaults_AuditlogForwarder c" pre g post out] c a(1) sp(1,4,5) by simp
qed


section \<open>Properties\<close>

text \<open>
  Property C23. A configuration that was decoded and validated and could be applied gives the forwarder
  exactly one guaranteed output, the one the configuration marks so, with 4 attempts and backoff 0.5 s
  to 3 s, and one best-effort output for each other configured output, in order, with 6 attempts and
  backoff 1 s to 6 s: no configured output is lost and none is used in the wrong mode.
\<close>

theorem ApplyTo_outputs:
  assumes "decoder_defaults (ae_decodeInto env)" and "Complete env o0 = (None, o1)"
    and "Validate env o1 = Return None" and "ApplyTo env o1 l server w = Return (None, server', w')"
  shows "\<exists>cfg pre g post out. opt_Config o1 = Some cfg \<and> Outputs cfg = pre @ g # post
    \<and> DeliveryMode g = DeliveryModeGuaranteed
    \<and> (\<forall>c\<in>set (pre @ post). DeliveryMode c = DeliveryModeBestEffort)
    \<and> OutputsGuaranteed server' = [out] \<and> out_url out = URL (the (HTTP g))
    \<and> maxSendAttempts out = 4 \<and> baseBackoff out = 500 * Millisecond \<and> maxBackoff out = 3 * Second
    \<and> map out_url (OutputsBestEffort server') = map (\<lambda>c. URL (the (HTTP c))) (pre @ post)
    \<and> (\<forall>out\<in>set (OutputsBestEffort server'). maxSendAttempts out = 6 \<and> baseBackoff out = 1 * Second
         \<and> maxBackoff out = 6 * Second)"
proof -
  from assms obtain cfg pre g post out where a: "opt_Config o1 = Some cfg" "Outputs cfg = pre @ g # post"
    "DeliveryMode g = DeliveryModeGuaranteed"
    "\<forall>c\<in>set (pre @ post). DeliveryMode c = DeliveryModeBestEffort" "OutputsGuaranteed server' = [out]"
    "tuned 4 (500 * Millisecond) (3 * Second) (the (HTTP g)) out"
    "list_all2 (\<lambda>c out. tuned 6 (1 * Second) (6 * Second) (the (HTTP c)) out) (pre @ post)
       (OutputsBestEffort server')"
    by (rule ApplyTo_outputs_built)
  from a(7) have "map out_url (OutputsBestEffort server') = map (\<lambda>c. URL (the (HTTP c))) (pre @ post)
      \<and> (\<forall>out\<in>set (OutputsBestEffort server'). maxSendAttempts out = 6 \<and> baseBackoff out = 1 * Second
         \<and> maxBackoff out = 6 * Second)"
    by (induction rule: list_all2_induct) (auto simp: tuned_def)
  with a(1-5) a(6) [unfolded tuned_def] show ?thesis by blast
qed

text \<open>
  Property C24. Applying the options leaks nothing: when it fails, in whichever step, no watcher and no
  goroutine is left behind, even if all guaranteed outputs were already built; when it succeeds, closing
  the outputs of both groups gives everything back.
\<close>

theorem ApplyTo_no_leak:
  assumes "fs_wf w" and "ApplyTo env o1 l server w = Return (e, server', w1)"
    and "close_each (Close (ae_sys env)) (OutputsGuaranteed server' @ OutputsBestEffort server') w1 = (es, os, w2)"
  shows "if e = None then used_resources w2 = used_resources w else used_resources w1 = used_resources w"
  using ApplyTo_resources [OF assms(2,1)] http.close_each_used [OF assms(3)]
  by (cases e) (simp_all add: Un_Diff Diff_triv)

lemma configureClientAuth_Inr_iff:
  "configureClientAuth env t ca = Inr t' \<longleftrightarrow>
     (\<exists>pem. ReadFile env (Clean ca) = Inr pem \<and> PEMCerts env pem \<noteq> []
        \<and> t' = t\<lparr>ClientCAs := Some (PEMCerts env pem), ClientAuth := RequireAndVerifyClientCert\<rparr>)"
  by (auto simp: configureClientAuth_def Let_def split: sum.splits)

text \<open>
  Property C29. The listener's TLS configuration. It is set up exactly when the server certificate loads
  and, if a client CA file is configured, that file holds at least one certificate; it then requires TLS
  1.2 and presents that certificate. Client certificates are required and verified, against the
  configured CA and nothing else, if and only if a client CA file is configured: a configured client
  authentication is never silently dropped.
\<close>

theorem applyServerConfigToServing_iff:
  "(\<exists>serving'. applyServerConfigToServing env s serving = (None, serving')
      \<and> ServingAddress serving' = JoinHostPort (Address s) (FormatInt (sint (Port s)))
      \<and> TLSConfig serving' = Some t)
   \<longleftrightarrow> (\<exists>cert. LoadX509KeyPair env (CertFile (ServerTLS s)) (KeyFile (ServerTLS s)) = Inr cert
        \<and> MinVersion t = VersionTLS12 \<and> Certificates t = [cert] \<and> RootCAs t = None
        \<and> (if ClientCAFile (ServerTLS s) = '''' then ClientAuth t = NoClientCert \<and> ClientCAs t = None
           else ClientAuth t = RequireAndVerifyClientCert
             \<and> (\<exists>pem. ReadFile env (Clean (ClientCAFile (ServerTLS s))) = Inr pem \<and> PEMCerts env pem \<noteq> []
                  \<and> ClientCAs t = Some (PEMCerts env pem))))"
proof (cases "LoadX509KeyPair env (CertFile (ServerTLS s)) (KeyFile (ServerTLS s))")
  case (Inl e)
  then show ?thesis by (simp add: applyServerConfigToServing_def)
next
  case (Inr cert)
  show ?thesis
  proof (cases "ClientCAFile (ServerTLS s) = ''''")
    case True
    with Inr show ?thesis
      by (cases t) (auto simp: applyServerConfigToServing_def base_tls_config_def)
  next
    case False
    have "(\<exists>serving'. applyServerConfigToServing env s serving = (None, serving')
        \<and> ServingAddress serving' = JoinHostPort (Address s) (FormatInt (sint (Port s)))
        \<and> TLSConfig serving' = Some t)
      \<longleftrightarrow> configureClientAuth env (base_tls_config\<lparr>Certificates := [cert]\<rparr>) (ClientCAFile (ServerTLS s)) = Inr t"
      using Inr False by (auto simp: applyServerConfigToServing_def Let_def split: sum.splits)
    also have "\<dots> \<longleftrightarrow> (\<exists>pem. ReadFile env (Clean (ClientCAFile (ServerTLS s))) = Inr pem \<and> PEMCerts env pem \<noteq> []
        \<and> t = base_tls_config\<lparr>Certificates := [cert], ClientCAs := Some (PEMCerts env pem),
                 ClientAuth := RequireAndVerifyClientCert\<rparr>)"
      by (simp add: configureClientAuth_Inr_iff)
    finally show ?thesis
      using Inr False by (cases t) (auto simp: base_tls_config_def)
  qed
qed


section \<open>A concrete configuration\<close>

definition sample_raw :: AuditlogForwarder where
  "sample_raw =
     \<lparr>Meta = \<lparr>Kind = ''AuditlogForwarder'', APIVersion = ''config.auditlog-forwarder.gardener.cloud/v1alpha1''\<rparr>,
      LogConfig = \<lparr>Level = '''', Format = ''''\<rparr>,
      ServerConfig = \<lparr>Port = 0, MetricsPort = 0, Address = '''',
        ServerTLS = \<lparr>CertFile = ''/tls.crt'', KeyFile = ''/tls.key'', ClientCAFile = ''''\<rparr>\<rparr>,
      Outputs = [\<lparr>DeliveryMode = '''', HTTP = Some sample_http\<rparr>], InjectAnnotations = []\<rparr>"

definition sample_config :: AuditlogForwarder where
  "sample_config = SetObjectDefaults_AuditlogForwarder sample_raw"

definition sample_app_env :: app_env where
  "sample_app_env = \<lparr>ae_sys = sample_env, ae_decodeInto = (\<lambda>_. (None, sample_config)),
     ae_parse = (\<lambda>_. Inr \<lparr>Scheme = ''https'', RawQuery = '''', Fragment = '''', User = None\<rparr>),
     ae_annotations = (\<lambda>_ _. []), ae_aggregate = (\<lambda>_. Errors_New ''invalid''), ae_quote = id\<rparr>"

definition sample_options :: Options where
  "sample_options = \<lparr>ConfigFile = ''/config.yaml'', opt_Config = Some sample_config\<rparr>"

lemma sample_complete: "Complete sample_app_env (NewOptions\<lparr>ConfigFile := ''/config.yaml''\<rparr>) = (None, sample_options)"
  by (simp add: Complete_def sample_app_env_def sample_env_def NewOptions_def sample_options_def)

lemma sample_decoder: "decoder_defaults (ae_decodeInto sample_app_env)"
  by (auto simp: decoder_defaults_def sample_app_env_def sample_config_def)

lemma sample_trims:
  "TrimSpace ''/tls.crt'' \<noteq> ''''" "TrimSpace ''/tls.key'' \<noteq> ''''"
  "TrimSpace ''https://example.com/v1/logs'' \<noteq> ''''" "TrimSpace ''gzip'' = ''gzip''"
  by code_simp+

lemma sample_config_fields:
  "LogConfig sample_config = \<lparr>Level = ''info'', Format = ''json''\<rparr>"
  "ServerConfig sample_config = \<lparr>Port = 10443, MetricsPort = 8080, Address = '''',
     ServerTLS = \<lparr>CertFile = ''/tls.crt'', KeyFile = ''/tls.key'', ClientCAFile = ''''\<rparr>\<rparr>"
  "Outputs sample_config = [\<lparr>DeliveryMode = DeliveryModeGuaranteed, HTTP = Some sample_http\<rparr>]"
  "InjectAnnotations sample_config = []"
  by (simp_all add: sample_config_def sample_raw_def SetObjectDefaults_eq SetDefaults_Outputs_single SetDefaults_Log_def
      SetDefaults_Server_def log_const_defs)

lemma sample_validate: "Validate sample_app_env sample_options = Return None"
proof -
  have "valid_http (ae_parse sample_app_env) sample_http"
    by (simp add: valid_http_def valid_url_def sample_http_def sample_app_env_def valid_client_tls_def sample_trims)
  then have "valid_outputs (ae_parse sample_app_env) (Outputs sample_config)"
    by (simp add: sample_config_fields valid_outputs_def valid_output_def is_guaranteed_def delivery_mode_defs)
  moreover have "valid_server (ServerConfig sample_config)"
    by (simp add: sample_config_fields valid_server_def valid_port_def sample_trims)
  ultimately show ?thesis
    by (simp add: Validate_def sample_options_def ValidateAuditlogForwarder_def validation_Nil_iffs
        sample_config_fields valid_log_def sample_app_env_def)
qed

lemma sample_apply:
  "\<exists>server' w'. ApplyTo sample_app_env sample_options l empty_AppConfig empty_world = Return (None, server', w')
     \<and> cfg_InjectAnnotations server' = []"
proof -
  obtain serving where sv:
    "applyServerConfigToServing sample_env (ServerConfig sample_config) (cfg_Serving empty_AppConfig) = (None, serving)"
    by (simp add: applyServerConfigToServing_def sample_config_fields sample_env_def LoadX509KeyPair_def)
  let ?server = "empty_AppConfig\<lparr>cfg_Serving := serving\<lparr>MetricsAddress := JoinHostPort
      (Address (ServerConfig sample_config)) (FormatInt (sint (MetricsPort (ServerConfig sample_config))))\<rparr>,
      cfg_InjectAnnotations := InjectAnnotations sample_config\<rparr>"
  have "\<exists>server' w'. applyOutputs sample_app_env sample_config l s empty_world = (None, server', w')
      \<and> cfg_InjectAnnotations server' = cfg_InjectAnnotations s" for s
    by (simp add: applyOutputs_def sample_config_fields NewHTTPOutputsWithOptions_def sample_app_env_def
        guaranteed_options_def best_effort_options_def WithOutputLogger_def delivery_mode_defs New_def sample_http_def
        createHTTPClient_def loadCACertPool_def sample_env_def Let_def startTLSWatcher_def tlsDirectories_def
        empty_world_def new_output_def)
  then obtain server' w' where "applyOutputs sample_app_env sample_config l ?server empty_world = (None, server', w')"
    "cfg_InjectAnnotations server' = cfg_InjectAnnotations ?server" by blast
  moreover have "ApplyTo sample_app_env sample_options l empty_AppConfig empty_world =
      Return (applyOutputs sample_app_env sample_config l ?server empty_world)"
    by (simp add: ApplyTo_def sample_options_def sample_app_env_def [THEN arg_cong [of _ _ ae_sys]] Let_def sv)
  ultimately show ?thesis by (simp add: sample_config_fields(4))
qed

theorem ApplyTo_outputs_witness:
  "\<exists>server' w'. ApplyTo sample_app_env sample_options Discard empty_AppConfig empty_world = Return (None, server', w')
     \<and> (\<exists>out. OutputsGuaranteed server' = [out] \<and> maxSendAttempts out = 4)"
  using sample_apply ApplyTo_outputs [OF sample_decoder sample_complete sample_validate] by blast

theorem ApplyTo_no_leak_witness:
  "\<exists>server' w1. ApplyTo sample_app_env sample_options Discard empty_AppConfig empty_world = Return (None, server', w1)
     \<and> used_resources (snd (snd (close_each (Close (ae_sys sample_app_env))
           (OutputsGuaranteed server' @ OutputsBestEffort server') w1))) = {}"
proof -
  from sample_apply obtain server' w1 where
    a: "ApplyTo sample_app_env sample_options Discard empty_AppConfig empty_world = Return (None, server', w1)" by blast
  obtain es os w2 where c: "close_each (Close (ae_sys sample_app_env))
      (OutputsGuaranteed server' @ OutputsBestEffort server') w1 = (es, os, w2)" by (metis prod_cases3)
  have "fs_wf empty_world" by (simp add: fs_wf_def empty_world_def)
  from ApplyTo_no_leak [OF this a c] a c show ?thesis by (simp add: used_resources_def empty_world_def)
qed

end
