(* ===== verification/HttpSend.thy ===== *)
theory HttpSend
  imports HttpOutput
begin

text \<open>
  Sending over HTTP with retries: \<^verbatim>\<open>Send\<close>, \<^verbatim>\<open>readAndCloseBody\<close>, \<^verbatim>\<open>isRetryableStatus\<close> and
  \<^verbatim>\<open>backoffDuration\<close> of \<^verbatim>\<open>src/internal/output/http/http.go\<close>.

  The world outside one call of \<^verbatim>\<open>Send\<close> is the record \<open>send_env\<close>: what the gzip writer produces, whether a
  request for the URL can be built, which client the atomic pointer holds at each attempt (the TLS
  watcher may swap it between attempts), how the server answers each attempt and how long that takes,
  the jitter of \<^verbatim>\<open>wait.Jitter\<close> (k8s.io/apimachinery) and the runtime's choice in a \<^verbatim>\<open>select\<close>. Each is
  indexed by the attempt, so every behaviour of the network is covered. The state collects the clock,
  the requests put on the wire, the sleeps and the log.

  The lemmas give the outcome of \<^verbatim>\<open>Send\<close> on every branch, bound its requests, its sleeps and its
  duration, and say what is on the wire.
\<close>

section \<open>Requests, responses, environment\<close>

record request =
  Method :: string
  ReqURL :: string
  Header :: "(string \<times> string) list"
  ReqBody :: bytes

record response =
  StatusCode :: int
  BodyRead :: "bytes result"
  BodyClose :: err

datatype do_result = DoError go_error | DoResponse response

record send_env =
  gzipWrite :: "bytes \<Rightarrow> err"
  gzipClose :: "bytes \<Rightarrow> err"
  gzipBytes :: "bytes \<Rightarrow> bytes"
  NewRequest :: "string \<Rightarrow> err"
  clientAt :: "int \<Rightarrow> http_client"
  Do :: "int \<Rightarrow> http_client \<Rightarrow> request \<Rightarrow> do_result"
  DoTime :: "int \<Rightarrow> http_client \<Rightarrow> request \<Rightarrow> int"
  Jitter :: "int \<Rightarrow> duration \<Rightarrow> rat \<Rightarrow> duration"
  timerWins :: "int \<Rightarrow> bool"

record send_state =
  clock :: int
  sent :: "(http_client \<times> request) list"
  sleeps :: "duration list"
  send_log :: "log_entry list"

section \<open>Helpers of Send\<close>

definition isRetryableStatus :: "int \<Rightarrow> bool" where
  "isRetryableStatus statusCode \<longleftrightarrow> statusCode = 429 \<or> statusCode \<ge> 500"

text \<open>The deferred close runs after the body was read, whatever reading gave.\<close>

definition readAndCloseBody :: "response \<Rightarrow> logger \<Rightarrow> bytes result \<times> log_entry list" where
  "readAndCloseBody resp l =
     (case BodyRead resp of
        Inl e \<Rightarrow> Inl (wrapf ''failed to read response body: '' e)
      | Inr body \<Rightarrow> Inr body,
      case BodyClose resp of
        None \<Rightarrow> []
      | Some e \<Rightarrow> [LogError l e ''failed closing body'' []])"

definition min_duration :: "duration \<Rightarrow> duration \<Rightarrow> duration" where
  "min_duration a b = (if sint b < sint a then b else a)"

text \<open>
  The shift and the product are on \<^verbatim>\<open>int64\<close> and wrap around; a shift by 64 or more gives 0.
\<close>

definition backoffDuration ::
    "(duration \<Rightarrow> rat \<Rightarrow> duration) \<Rightarrow> int \<Rightarrow> duration \<Rightarrow> duration \<Rightarrow> duration" where
  "backoffDuration jitter attempt base mx =
     (if attempt \<le> 1 then base
      else (let backoff = base * push_bit (nat (attempt - 1)) 1
            in jitter (min_duration backoff mx) (5 / 100)))"

section \<open>Send\<close>

definition mk_request :: "HttpOutput \<Rightarrow> bytes \<Rightarrow> request" where
  "mk_request o1 payload =
     \<lparr>Method = ''POST'', ReqURL = out_url o1,
      Header = [(''Content-Type'', ''application/json'')] @
        (if out_compression o1 = contentEncodingGzip
         then [(''Content-Encoding'', contentEncodingGzip)] else []),
      ReqBody = payload\<rparr>"

definition status_error :: "int \<Rightarrow> bytes \<Rightarrow> go_error" where
  "status_error code body =
     Errors_New (''output returned status '' @ FormatInt code @ '': '' @ body)"

text \<open>
  The body of the retry loop up to the backoff: \<^term>\<open>Inl r\<close> returns \<open>r\<close> from \<^verbatim>\<open>Send\<close>, \<^term>\<open>Inr e\<close> sets
  \<^verbatim>\<open>lastErr\<close> to \<open>e\<close> and goes on.
\<close>

definition send_attempt ::
    "send_env \<Rightarrow> HttpOutput \<Rightarrow> logger \<Rightarrow> bytes \<Rightarrow> int \<Rightarrow> send_state \<Rightarrow> (err + go_error) \<times> send_state" where
  "send_attempt env o1 l payload attempt s =
     (case NewRequest env (out_url o1) of
        Some e \<Rightarrow> (Inl (Some (wrapf ''failed to create request: '' e)), s)
      | None \<Rightarrow>
          (let req = mk_request o1 payload;
               client = clientAt env attempt;
               s = s\<lparr>clock := clock s + DoTime env attempt client req, sent := sent s @ [(client, req)]\<rparr>
           in case Do env attempt client req of
                DoError e \<Rightarrow> (Inr (wrapf ''failed to send request: '' e), s)
              | DoResponse resp \<Rightarrow>
                  (let (r, logs) = readAndCloseBody resp l;
                       s = s\<lparr>send_log := send_log s @ logs\<rparr>
                   in case r of
                        Inl readErr \<Rightarrow> (Inl (Some readErr), s)
                      | Inr body \<Rightarrow>
                          if StatusCode resp \<ge> 200 \<and> StatusCode resp < 300 then (Inl None, s)
                          else (let reqErr = status_error (StatusCode resp) body
                                in if \<not> isRetryableStatus (StatusCode resp) then (Inl (Some reqErr), s)
                                   else (Inr reqErr, s)))))"

definition retry_canceled :: "go_error \<Rightarrow> go_error \<Rightarrow> go_error" where
  "retry_canceled e lastErr =
     Errorf [Inl ''request canceled while retrying: '', Inr e,
             Inl '', previous attempt failed with: '', Inr lastErr]"

function send_loop ::
    "send_env \<Rightarrow> HttpOutput \<Rightarrow> go_context \<Rightarrow> logger \<Rightarrow> bytes \<Rightarrow> int \<Rightarrow> err \<Rightarrow> send_state \<Rightarrow>
     err \<times> send_state" where
  "send_loop env o1 ctx l payload attempt lastErr s =
     (if attempt \<le> maxSendAttempts o1 then
        (case send_attempt env o1 l payload attempt s of
           (Inl r, s) \<Rightarrow> (r, s)
         | (Inr e, s) \<Rightarrow>
             if attempt < maxSendAttempts o1 then
               (let d = backoffDuration (Jitter env attempt) attempt (baseBackoff o1) (maxBackoff o1);
                    (se, t) = sleepWithContext (timerWins env attempt) (clock s) ctx d;
                    s = s\<lparr>clock := t, sleeps := sleeps s @ [d]\<rparr>
                in case se of
                     Some ce \<Rightarrow> (Some (retry_canceled ce e), s)
                   | None \<Rightarrow> send_loop env o1 ctx l payload (attempt + 1) (Some e) s)
             else send_loop env o1 ctx l payload (attempt + 1) (Some e) s)
      else (lastErr, s))"
  by pat_completeness auto
termination
  by (relation "measure (\<lambda>(env, o1, ctx, l, payload, attempt, lastErr, s).
        nat (maxSendAttempts o1 - attempt + 1))") auto

declare send_loop.simps [simp del]

text \<open>The bytes to send: the data, or its gzip encoding; the errors of the gzip writer end \<^verbatim>\<open>Send\<close>.\<close>

definition send_payload :: "send_env \<Rightarrow> HttpOutput \<Rightarrow> bytes \<Rightarrow> bytes result" where
  "send_payload env o1 data =
     (if out_compression o1 = contentEncodingGzip then
        (case gzipWrite env data of
           Some e \<Rightarrow> Inl (wrapf ''failed to gzip data: '' e)
         | None \<Rightarrow>
             (case gzipClose env data of
                Some e \<Rightarrow> Inl (wrapf ''failed to finalize gzip writer: '' e)
              | None \<Rightarrow> Inr (gzipBytes env data)))
      else Inr data)"

definition Send ::
    "send_env \<Rightarrow> HttpOutput \<Rightarrow> go_context \<Rightarrow> bytes \<Rightarrow> send_state \<Rightarrow> err \<times> send_state" where
  "Send env o1 ctx data s =
     (let l = WithValues (WithName (LoggerFromContext ctx) ''http'') [(''url'', out_url o1)]
      in case send_payload env o1 data of
           Inl e \<Rightarrow> (Some e, s)
         | Inr payload \<Rightarrow> send_loop env o1 ctx l payload 1 None s)"

section \<open>Backoff\<close>

text \<open>
  The documented behaviour of \<^verbatim>\<open>wait.Jitter(duration, maxFactor)\<close>: a duration between \<open>duration\<close> and
  \<open>duration + maxFactor * duration\<close>, for a non-negative duration where that sum is an \<^verbatim>\<open>int64\<close>.
\<close>

definition jitter_ok :: "(duration \<Rightarrow> rat \<Rightarrow> duration) \<Rightarrow> bool" where
  "jitter_ok j \<longleftrightarrow> (\<forall>d f. 0 \<le> sint d \<and> 0 < f \<and> rat_of_int (sint d) * (1 + f) < 2 ^ 63 \<longrightarrow>
     sint d \<le> sint (j d f) \<and> rat_of_int (sint (j d f)) \<le> rat_of_int (sint d) * (1 + f))"

lemma sint_min_duration [simp]: "sint (min_duration a b) = min (sint a) (sint b)"
  by (auto simp: min_duration_def)

lemma sint_push_bit_one: "n < 63 \<Longrightarrow> sint (push_bit n (1 :: 64 word)) = 2 ^ n"
proof -
  assume n: "n < 63"
  have "(2 :: int) ^ Suc n \<le> 2 ^ 63" using n by (intro power_increasing) auto
  then have le: "(2 :: int) ^ n < 2 ^ 63" by simp
  have "push_bit n (1 :: 64 word) = word_of_int (2 ^ n)" by (simp add: push_bit_eq_mult)
  then have "sint (push_bit n (1 :: 64 word)) = signed_take_bit 63 (2 ^ n)"
    by (simp only: sint_sbintrunc' len_num1) simp
  also have "\<dots> = 2 ^ n"
    using le by (intro signed_take_bit_int_eq_self) (auto intro: order_trans [of _ 0])
  finally show ?thesis .
qed

lemma sint_backoff:
  fixes base :: duration
  assumes "0 \<le> sint base" and "sint base * 2 ^ n < 2 ^ 63" and "n < 63"
  shows "sint (base * push_bit n 1) = sint base * 2 ^ n"
proof -
  have "0 \<le> sint base * sint (push_bit n (1 :: 64 word))"
    and "sint base * sint (push_bit n (1 :: 64 word)) < 2 ^ 63"
    using assms by (simp_all only: sint_push_bit_one) simp_all
  then have "sint (base * push_bit n 1) = sint base * sint (push_bit n (1 :: 64 word))"
    by (intro sint_mult_no_overflow) auto
  with assms(3) show ?thesis by (simp only: sint_push_bit_one)
qed

lemma backoffDuration_jitter:
  assumes "jitter_ok j" and "2 \<le> attempt" and "nat (attempt - 1) < 63"
    and "0 \<le> sint base" and "sint base * 2 ^ nat (attempt - 1) < 2 ^ 63"
    and "0 \<le> sint mx" and "21 * sint mx < 20 * 2 ^ 63"
  shows "min (sint base * 2 ^ nat (attempt - 1)) (sint mx) \<le> sint (backoffDuration j attempt base mx)
    \<and> 20 * sint (backoffDuration j attempt base mx) \<le> 21 * min (sint base * 2 ^ nat (attempt - 1)) (sint mx)"
proof -
  let ?d = "min_duration (base * push_bit (nat (attempt - 1)) 1) mx"
  let ?m = "min (sint base * 2 ^ nat (attempt - 1)) (sint mx)"
  let ?r = "sint (backoffDuration j attempt base mx)"
  have d: "sint ?d = ?m"
    using sint_backoff [OF assms(4,5,3)] by (simp only: sint_min_duration)
  have "0 \<le> ?m" using assms(4,6) by simp
  moreover have "rat_of_int ?m * (1 + 5 / 100) < 2 ^ 63"
  proof -
    have "21 * ?m < 20 * 2 ^ 63" using assms(7) by linarith
    then have "rat_of_int (21 * ?m) < rat_of_int (20 * 2 ^ 63)" by (simp only: of_int_less_iff)
    then show ?thesis by simp
  qed
  moreover have "?r = sint (j ?d (5 / 100))"
    using assms(2) by (simp add: backoffDuration_def Let_def)
  ultimately have "?m \<le> ?r" and "rat_of_int ?r \<le> rat_of_int ?m * (1 + 5 / 100)"
    using assms(1) [unfolded jitter_ok_def, rule_format, of ?d "5 / 100"] unfolding d by simp_all
  moreover from this(2) have "rat_of_int (20 * ?r) \<le> rat_of_int (21 * ?m)"
    by (simp del: of_int_sint)
  ultimately show ?thesis by (simp only: of_int_le_iff)
qed

section \<open>The outcome of the retry loop\<close>

text \<open>
  What one attempt decides, read off the environment: \<^term>\<open>Inl None\<close> delivered, \<^term>\<open>Inl (Some e)\<close>
  failed for good, \<^term>\<open>Inr e\<close> failed with an error that is retried.
\<close>

definition verdict :: "send_env \<Rightarrow> HttpOutput \<Rightarrow> bytes \<Rightarrow> int \<Rightarrow> err + go_error" where
  "verdict env o1 payload k =
     (case NewRequest env (out_url o1) of
        Some e \<Rightarrow> Inl (Some (wrapf ''failed to create request: '' e))
      | None \<Rightarrow>
          (case Do env k (clientAt env k) (mk_request o1 payload) of
             DoError e \<Rightarrow> Inr (wrapf ''failed to send request: '' e)
           | DoResponse resp \<Rightarrow>
               (case BodyRead resp of
                  Inl e \<Rightarrow> Inl (Some (wrapf ''failed to read response body: '' e))
                | Inr body \<Rightarrow>
                    if 200 \<le> StatusCode resp \<and> StatusCode resp < 300 then Inl None
                    else if StatusCode resp = 429 \<or> 500 \<le> StatusCode resp
                    then Inr (status_error (StatusCode resp) body)
                    else Inl (Some (status_error (StatusCode resp) body)))))"

text \<open>The server accepted attempt \<open>k\<close>: it answered it with a 2xx status.\<close>

definition accepted :: "send_env \<Rightarrow> HttpOutput \<Rightarrow> bytes \<Rightarrow> int \<Rightarrow> bool" where
  "accepted env o1 payload k \<longleftrightarrow>
     (\<exists>resp. Do env k (clientAt env k) (mk_request o1 payload) = DoResponse resp
        \<and> 200 \<le> StatusCode resp \<and> StatusCode resp < 300)"

lemma verdict_delivered: "verdict env o1 payload k = Inl None \<Longrightarrow> accepted env o1 payload k"
  by (auto simp: verdict_def accepted_def split: option.splits do_result.splits sum.splits if_splits)

lemma send_attempt_verdict: "fst (send_attempt env o1 l payload k s) = verdict env o1 payload k"
  by (auto simp: send_attempt_def verdict_def readAndCloseBody_def isRetryableStatus_def Let_def
      split: option.splits do_result.splits sum.splits)

lemma send_attempt_state:
  assumes "send_attempt env o1 l payload k s = (v, s1)"
  shows "sent s1 = sent s @ (if NewRequest env (out_url o1) = None
                             then [(clientAt env k, mk_request o1 payload)] else [])"
    and "clock s1 = clock s + (if NewRequest env (out_url o1) = None
                               then DoTime env k (clientAt env k) (mk_request o1 payload) else 0)"
    and "sleeps s1 = sleeps s"
  using assms
  by (auto simp: send_attempt_def readAndCloseBody_def Let_def
      split: option.splits do_result.splits sum.splits if_splits)

lemma send_loop_return:
  assumes "k \<le> maxSendAttempts o1" and "send_attempt env o1 l payload k s = (Inl r, s1)"
  shows "send_loop env o1 ctx l payload k le s = (r, s1)"
  using assms by (subst send_loop.simps) simp

lemma send_loop_exhausted:
  assumes "k = maxSendAttempts o1" and "send_attempt env o1 l payload k s = (Inr e, s1)"
  shows "send_loop env o1 ctx l payload k le s = (Some e, s1)"
  using assms by (subst send_loop.simps, subst (2) send_loop.simps) simp

abbreviation backoff_at :: "send_env \<Rightarrow> HttpOutput \<Rightarrow> int \<Rightarrow> duration" where
  "backoff_at env o1 k \<equiv> backoffDuration (Jitter env k) k (baseBackoff o1) (maxBackoff o1)"

lemma send_loop_sleep:
  assumes "k < maxSendAttempts o1" and "send_attempt env o1 l payload k s = (Inr e, s1)"
    and "sleepWithContext (timerWins env k) (clock s1) ctx (backoff_at env o1 k) = (se, t)"
  shows "send_loop env o1 ctx l payload k le s =
    (case se of
       Some ce \<Rightarrow> (Some (retry_canceled ce e), s1\<lparr>clock := t, sleeps := sleeps s1 @ [backoff_at env o1 k]\<rparr>)
     | None \<Rightarrow> send_loop env o1 ctx l payload (k + 1) (Some e)
                 (s1\<lparr>clock := t, sleeps := sleeps s1 @ [backoff_at env o1 k]\<rparr>))"
  using assms by (subst send_loop.simps) (simp add: Let_def)

lemma send_loop_idle:
  "maxSendAttempts o1 < k \<Longrightarrow> send_loop env o1 ctx l payload k le s = (le, s)"
  by (subst send_loop.simps) simp

text \<open>How a run of the loop can end, at attempt \<open>m\<close>.\<close>

definition ends_at ::
    "send_env \<Rightarrow> HttpOutput \<Rightarrow> go_context \<Rightarrow> bytes \<Rightarrow> int \<Rightarrow> err \<Rightarrow> bool" where
  "ends_at env o1 ctx payload m r \<longleftrightarrow>
     verdict env o1 payload m = Inl r
   \<or> m = maxSendAttempts o1 \<and> (\<exists>e. verdict env o1 payload m = Inr e \<and> r = Some e)
   \<or> m < maxSendAttempts o1 \<and> (\<exists>e t ce. verdict env o1 payload m = Inr e
        \<and> ctx_done ctx = Some (t, ce) \<and> r = Some (retry_canceled ce e))"

text \<open>The requests of attempts \<open>k\<close> to \<open>m\<close>.\<close>

definition attempt_requests ::
    "send_env \<Rightarrow> HttpOutput \<Rightarrow> bytes \<Rightarrow> int \<Rightarrow> int \<Rightarrow> (http_client \<times> request) list" where
  "attempt_requests env o1 payload k m =
     (if NewRequest env (out_url o1) = None
      then map (\<lambda>j. (clientAt env j, mk_request o1 payload)) [k..m] else [])"

lemma sleepWithContext_err:
  "sleepWithContext tw now ctx d = (Some e, t) \<Longrightarrow> \<exists>c. ctx_done ctx = Some (c, e)"
  by (auto simp: sleepWithContext_def Let_def split: option.splits if_splits)

lemma attempt_requests_Cons:
  "k \<le> m \<Longrightarrow> attempt_requests env o1 payload k m =
     (if NewRequest env (out_url o1) = None then [(clientAt env k, mk_request o1 payload)] else []) @
     attempt_requests env o1 payload (k + 1) m"
  by (simp add: attempt_requests_def upto_rec1)

lemma attempt_requests_single:
  "attempt_requests env o1 payload k k =
     (if NewRequest env (out_url o1) = None then [(clientAt env k, mk_request o1 payload)] else [])"
  by (simp add: attempt_requests_def)

text \<open>
  One iteration: the loop ends at this attempt, or goes on with the next after one sleep. The time
  the iteration may take is the time of the request plus the sleep.
\<close>

definition do_time :: "send_env \<Rightarrow> HttpOutput \<Rightarrow> bytes \<Rightarrow> int \<Rightarrow> int" where
  "do_time env o1 payload k =
     (if NewRequest env (out_url o1) = None
      then DoTime env k (clientAt env k) (mk_request o1 payload) else 0)"

lemma send_loop_iteration:
  assumes "k \<le> maxSendAttempts o1" and "send_loop env o1 ctx l payload k le s = (r, s')"
  obtains (ends) "ends_at env o1 ctx payload k r" and "sent s' = sent s @ attempt_requests env o1 payload k k"
      and "sleeps s' = sleeps s \<or> k < maxSendAttempts o1 \<and> sleeps s' = sleeps s @ [backoff_at env o1 k]"
      and "clock s' \<le> clock s + do_time env o1 payload k +
             (if k < maxSendAttempts o1 then max 0 (sint (backoff_at env o1 k)) else 0)"
  | (continues) e s2 where "k < maxSendAttempts o1" and "verdict env o1 payload k = Inr e"
      and "sent s2 = sent s @ attempt_requests env o1 payload k k"
      and "sleeps s2 = sleeps s @ [backoff_at env o1 k]"
      and "clock s2 = clock s + do_time env o1 payload k + max 0 (sint (backoff_at env o1 k))"
      and "send_loop env o1 ctx l payload (k + 1) (Some e) s2 = (r, s')"
proof -
  obtain v s1 where att: "send_attempt env o1 l payload k s = (v, s1)" by fastforce
  have v: "verdict env o1 payload k = v"
    using send_attempt_verdict [of env o1 l payload k s] att by simp
  note st = send_attempt_state [OF att, folded do_time_def attempt_requests_single]
  show thesis
  proof (cases v)
    case (Inl r')
    with assms send_loop_return [OF assms(1) att [unfolded Inl]] have "r = r'" "s' = s1" by simp_all
    with v Inl st show thesis by (intro ends) (auto simp: ends_at_def)
  next
    case (Inr e)
    show thesis
    proof (cases "k < maxSendAttempts o1")
      case False
      with assms have "k = maxSendAttempts o1" by simp
      with assms send_loop_exhausted [OF this att [unfolded Inr]] have "r = Some e" "s' = s1" by simp_all
      with v Inr st False assms(1) show thesis by (intro ends) (auto simp: ends_at_def)
    next
      case True
      obtain se t where sl: "sleepWithContext (timerWins env k) (clock s1) ctx (backoff_at env o1 k) = (se, t)"
        by fastforce
      note step = send_loop_sleep [OF True att [unfolded Inr] sl, of le] and time = sleepWithContext_time
        [of "clock s1" "timerWins env k" ctx "backoff_at env o1 k", unfolded sl]
      show thesis
      proof (cases se)
        case (Some ce)
        with sl obtain c where "ctx_done ctx = Some (c, ce)" by (blast dest: sleepWithContext_err)
        with True v Inr have "ends_at env o1 ctx payload k (Some (retry_canceled ce e))"
          by (auto simp: ends_at_def)
        with Some step assms(2) True st time show thesis by (intro ends) auto
      next
        case None
        with sleepWithContext_nil [of "timerWins env k" "clock s1" ctx "backoff_at env o1 k"] sl
        have "t = clock s1 + max 0 (sint (backoff_at env o1 k))" by simp
        with None step assms(2) True st v Inr show thesis by (intro continues) auto
      qed
    qed
  qed
qed

text \<open>Every run of the loop ends at some attempt, all before it retried, each with one request.\<close>

lemma send_loop_outcome:
  assumes "k \<le> maxSendAttempts o1" and "send_loop env o1 ctx l payload k le s = (r, s')"
  shows "\<exists>m. k \<le> m \<and> m \<le> maxSendAttempts o1 \<and> ends_at env o1 ctx payload m r
    \<and> (\<forall>j. k \<le> j \<and> j < m \<longrightarrow> \<not> isl (verdict env o1 payload j))
    \<and> sent s' = sent s @ attempt_requests env o1 payload k m"
  using assms
proof (induction "nat (maxSendAttempts o1 - k)" arbitrary: k le s rule: less_induct)
  case (less k le s)
  from less.prems show ?case
  proof (cases rule: send_loop_iteration)
    case ends
    with less.prems(1) show ?thesis by (intro exI [of _ k]) auto
  next
    case (continues e s2)
    with less.hyps [of "k + 1" "Some e" s2] obtain m where m: "k + 1 \<le> m" "m \<le> maxSendAttempts o1"
      "ends_at env o1 ctx payload m r" "\<forall>j. k + 1 \<le> j \<and> j < m \<longrightarrow> \<not> isl (verdict env o1 payload j)"
      "sent s' = sent s2 @ attempt_requests env o1 payload (k + 1) m"
      by auto
    have "\<not> isl (verdict env o1 payload j)" if "k \<le> j" "j < m" for j
      using that m(4) continues(2) by (cases "j = k") auto
    with m continues(3) show ?thesis
      by (intro exI [of _ m]) (simp add: attempt_requests_Cons [of k m] attempt_requests_single)
  qed
qed

section \<open>Properties of Send\<close>

lemma Send_outcome:
  assumes "1 \<le> maxSendAttempts o1" and "Send env o1 ctx data s = (r, s')"
    and "send_payload env o1 data = Inr payload"
  shows "\<exists>m. 1 \<le> m \<and> m \<le> maxSendAttempts o1 \<and> ends_at env o1 ctx payload m r
    \<and> (\<forall>j. 1 \<le> j \<and> j < m \<longrightarrow> \<not> isl (verdict env o1 payload j))
    \<and> sent s' = sent s @ attempt_requests env o1 payload 1 m"
  using assms send_loop_outcome [OF assms(1)] by (simp add: Send_def Let_def)

lemma retry_canceled_not_nil: "ends_at env o1 ctx payload m None \<Longrightarrow> verdict env o1 payload m = Inl None"
  by (auto simp: ends_at_def)

lemma verdict_Inl_None_request: "verdict env o1 payload m = Inl None \<Longrightarrow> NewRequest env (out_url o1) = None"
  by (auto simp: verdict_def split: option.splits)

text \<open>
  The HTTP outputs as the handler calls them. An output is a pointer: an address with the struct it
  points to. \<open>envs\<close> gives what surrounds the call for the output at each address, \<open>s\<close> the state it
  starts in. Data was delivered when a request that carries it, put on the wire by this call, was
  answered with a 2xx status.
\<close>

type_synonym http_ref = "nat \<times> HttpOutput"

definition http_ops :: "(nat \<Rightarrow> send_env) \<Rightarrow> send_state \<Rightarrow> (http_ref, send_state) output_ops" where
  "http_ops envs s =
     \<lparr>Op_Send = (\<lambda>(p, o1) ctx data. Send (envs p) o1 ctx data s), Op_Name = (\<lambda>(p, o1). Name o1)\<rparr>"

definition delivered :: "send_env \<Rightarrow> HttpOutput \<Rightarrow> bytes \<Rightarrow> send_state \<Rightarrow> bool" where
  "delivered env o1 data s' \<longleftrightarrow>
     (\<exists>payload m. send_payload env o1 data = Inr payload \<and> accepted env o1 payload m
        \<and> (clientAt env m, mk_request o1 payload) \<in> set (sent s'))"

lemma Send_payload_ok:
  assumes "Send env o1 ctx data s = (None, s')"
  obtains payload where "send_payload env o1 data = Inr payload"
  using assms that by (cases "send_payload env o1 data") (simp_all add: Send_def)

lemma Send_None_delivered:
  assumes "1 \<le> maxSendAttempts o1" and "Send env o1 ctx data s = (None, s')"
  shows "delivered env o1 data s'"
proof -
  from assms(2) obtain payload where p: "send_payload env o1 data = Inr payload" by (rule Send_payload_ok)
  from Send_outcome [OF assms p] obtain m where m: "1 \<le> m"
    "ends_at env o1 ctx payload m None"
    "sent s' = sent s @ attempt_requests env o1 payload 1 m" by blast
  have v: "verdict env o1 payload m = Inl None" using m(2) by (rule retry_canceled_not_nil)
  have "(clientAt env m, mk_request o1 payload) \<in> set (sent s')"
    using m(1,3) by (simp add: attempt_requests_def verdict_Inl_None_request [OF v])
  with p verdict_delivered [OF v] show ?thesis by (auto simp: delivered_def)
qed

interpretation http_send: output_sender "http_ops envs s" "\<lambda>(p, o1). 1 \<le> maxSendAttempts o1"
  "\<lambda>(p, o1). delivered (envs p) o1" for envs s
  by unfold_locales (auto simp: http_ops_def intro: Send_None_delivered split: prod.splits)


text \<open>
  Property C4. The whole behaviour of \<^verbatim>\<open>Send\<close> while its context is not cancelled: let \<open>m\<close> be the first
  attempt whose failure is not retried (or that succeeds), or the last attempt if there is none. Then
  \<^verbatim>\<open>Send\<close> sends exactly the requests of attempts 1 to \<open>m\<close> and returns what attempt \<open>m\<close> gave: nil for a 2xx
  status, otherwise its error.
\<close>

theorem Send_uncancelled:
  assumes "ctx_done ctx = None" and "send_payload env o1 data = Inr payload"
    and "1 \<le> m" and "m \<le> maxSendAttempts o1"
    and "\<forall>j. 1 \<le> j \<and> j < m \<longrightarrow> \<not> isl (verdict env o1 payload j)"
    and "isl (verdict env o1 payload m) \<or> m = maxSendAttempts o1"
  shows "fst (Send env o1 ctx data s) = case_sum (\<lambda>r. r) Some (verdict env o1 payload m)
    \<and> sent (snd (Send env o1 ctx data s)) = sent s @ attempt_requests env o1 payload 1 m"
proof -
  obtain r s' where se: "Send env o1 ctx data s = (r, s')" by fastforce
  from assms(3,4) have "1 \<le> maxSendAttempts o1" by simp
  from Send_outcome [OF this se assms(2)] obtain m' where m': "1 \<le> m'" "m' \<le> maxSendAttempts o1"
    "ends_at env o1 ctx payload m' r" "\<forall>j. 1 \<le> j \<and> j < m' \<longrightarrow> \<not> isl (verdict env o1 payload j)"
    "sent s' = sent s @ attempt_requests env o1 payload 1 m'" by blast
  have "isl (verdict env o1 payload m') \<or> m' = maxSendAttempts o1"
    and r: "r = case_sum (\<lambda>r. r) Some (verdict env o1 payload m')"
    using m'(3) assms(1) by (auto simp: ends_at_def)
  then have "m' = m"
    using assms(3-6) m'(1,2,4) by (metis linorder_neqE_linordered_idom order_less_le_trans less_le_not_le)
  with r se m'(5) show ?thesis by simp
qed

text \<open>
  With no attempt allowed (a maximum of 0 or less, which the option accepts), \<^verbatim>\<open>Send\<close> of
  an uncompressed output reports success without sending anything.
\<close>

lemma Send_no_attempts:
  assumes "maxSendAttempts o1 \<le> 0" and "out_compression o1 \<noteq> ''gzip''"
  shows "Send env o1 ctx data s = (None, s)"
  using assms by (simp add: Send_def send_payload_def contentEncodingGzip_def send_loop_idle)


text \<open>
  Property C35. What is on the wire: every request \<^verbatim>\<open>Send\<close> adds is a POST to the output's URL with JSON
  content type. With gzip compression its body is an encoding of the data that decompresses to exactly
  the data and it is marked as gzip; without, its body is the data and there is no encoding header.
\<close>

theorem Send_wire_format:
  assumes "\<forall>d. gunzip (gzipBytes env d) = d" and "1 \<le> maxSendAttempts o1"
    and "Send env o1 ctx data s = (r, s')"
  shows "\<exists>new. sent s' = sent s @ new \<and> int (length new) \<le> maxSendAttempts o1
    \<and> (\<forall>(c, req)\<in>set new. Method req = ''POST'' \<and> ReqURL req = out_url o1
          \<and> map_of (Header req) ''Content-Type'' = Some ''application/json''
          \<and> (if out_compression o1 = ''gzip''
             then map_of (Header req) ''Content-Encoding'' = Some ''gzip'' \<and> gunzip (ReqBody req) = data
             else map_of (Header req) ''Content-Encoding'' = None \<and> ReqBody req = data))"
proof (cases "send_payload env o1 data")
  case (Inl e)
  with assms(2,3) show ?thesis by (intro exI [of _ "[]"]) (simp add: Send_def)
next
  case (Inr payload)
  from Send_outcome [OF assms(2,3) Inr] obtain m where m: "1 \<le> m" "m \<le> maxSendAttempts o1"
    "sent s' = sent s @ attempt_requests env o1 payload 1 m" by blast
  have "if out_compression o1 = ''gzip'' then payload = gzipBytes env data else payload = data"
    using Inr by (auto simp: send_payload_def contentEncodingGzip_def split: option.splits if_splits)
  with assms(1) m show ?thesis
    by (intro exI [of _ "attempt_requests env o1 payload 1 m"])
       (auto simp: attempt_requests_def mk_request_def contentEncodingGzip_def)
qed

section \<open>Duration of Send\<close>

lemma send_loop_time:
  assumes "\<forall>j. do_time env o1 payload j \<le> T" and "0 \<le> T"
    and "k \<le> maxSendAttempts o1" and "send_loop env o1 ctx l payload k le s = (r, s')"
  shows "clock s' \<le> clock s + (maxSendAttempts o1 - k + 1) * T
    + sum_list (map (\<lambda>j. max 0 (sint (backoff_at env o1 j))) [k..maxSendAttempts o1 - 1])"
  using assms(3,4)
proof (induction "nat (maxSendAttempts o1 - k)" arbitrary: k le s rule: less_induct)
  case (less k le s)
  let ?b = "\<lambda>j. max 0 (sint (backoff_at env o1 j))"
  let ?S = "\<lambda>k. sum_list (map ?b [k..maxSendAttempts o1 - 1])"
  have S: "?S k = ?b k + ?S (k + 1)" if "k < maxSendAttempts o1"
    using that by (simp add: upto_rec1)
  have pos: "0 \<le> ?S j" for j by (intro sum_list_nonneg) auto
  from less.prems show ?case
  proof (cases rule: send_loop_iteration)
    case ends
    have "0 \<le> (maxSendAttempts o1 - k) * T"
      using less.prems(1) assms(2) by simp
    then have "T \<le> (maxSendAttempts o1 - k + 1) * T" by (simp add: distrib_right)
    then show ?thesis
      using ends(4) S pos [of k] pos [of "k + 1"] assms(1) [rule_format, of k]
      by (cases "k < maxSendAttempts o1") auto
  next
    case (continues e s2)
    with less.hyps [of "k + 1" "Some e" s2] have "clock s' \<le> clock s2 + (maxSendAttempts o1 - k) * T + ?S (k + 1)"
      by simp
    moreover have "(maxSendAttempts o1 - k + 1) * T = (maxSendAttempts o1 - k) * T + T"
      by (simp add: distrib_right)
    ultimately show ?thesis
      using continues(1,5) S assms(1) [rule_format, of k] by simp
  qed
qed

lemma Second_word [simp]: "Second = 1000000000" and Millisecond_word [simp]: "Millisecond = 1000000"
  by (simp_all add: Second_def Millisecond_def)

text \<open>
  The sleeps of the two configurations the program builds. For Guaranteed outputs (4
  attempts, 500 ms base, 3 s maximum): 500 ms, then between 1 and 1.05 s, then between 2 and 2.1 s.
  For BestEffort outputs (6 attempts, 1 s base, 6 s maximum): 1 s, then 2, 4, 6 and 6 s, each
  with up to 5 per cent on top.
\<close>

lemma backoff_schedule:
  assumes "jitter_ok j"
  shows "backoffDuration j 1 (500 * Millisecond) (3 * Second) = 500000000
    \<and> sint (backoffDuration j 2 (500 * Millisecond) (3 * Second)) \<in> {1000000000..1050000000}
    \<and> sint (backoffDuration j 3 (500 * Millisecond) (3 * Second)) \<in> {2000000000..2100000000}
    \<and> backoffDuration j 1 (1 * Second) (6 * Second) = 1000000000
    \<and> sint (backoffDuration j 2 (1 * Second) (6 * Second)) \<in> {2000000000..2100000000}
    \<and> sint (backoffDuration j 3 (1 * Second) (6 * Second)) \<in> {4000000000..4200000000}
    \<and> sint (backoffDuration j 4 (1 * Second) (6 * Second)) \<in> {6000000000..6300000000}
    \<and> sint (backoffDuration j 5 (1 * Second) (6 * Second)) \<in> {6000000000..6300000000}"
  using backoffDuration_jitter [OF assms, of 2 "500 * Millisecond" "3 * Second"]
    backoffDuration_jitter [OF assms, of 3 "500 * Millisecond" "3 * Second"]
    backoffDuration_jitter [OF assms, of 2 "1 * Second" "6 * Second"]
    backoffDuration_jitter [OF assms, of 3 "1 * Second" "6 * Second"]
    backoffDuration_jitter [OF assms, of 4 "1 * Second" "6 * Second"]
    backoffDuration_jitter [OF assms, of 5 "1 * Second" "6 * Second"]
  by (auto simp: backoffDuration_def)

lemma jitter_ok_id: "jitter_ok (\<lambda>d f. d)"
  by (auto simp: jitter_ok_def mult_le_cancel_left1 simp del: of_int_sint)

theorem backoff_schedule_witness:
  "sint (backoffDuration (\<lambda>d f. d) 3 (500 * Millisecond) (3 * Second)) \<in> {2000000000..2100000000}"
  using backoff_schedule [OF jitter_ok_id] by blast

text \<open>An admissible jitter that always adds the full five per cent.\<close>

definition full_jitter :: "duration \<Rightarrow> rat \<Rightarrow> duration" where
  "full_jitter d f = word_of_int \<lfloor>rat_of_int (sint d) * (1 + f)\<rfloor>"

lemma sint_word_of_int64: "- (2 ^ 63) \<le> i \<Longrightarrow> i < 2 ^ 63 \<Longrightarrow> sint (word_of_int i :: 64 word) = i"
  by (simp add: sint_sbintrunc' signed_take_bit_int_eq_self)

lemma jitter_ok_full: "jitter_ok full_jitter"
  unfolding jitter_ok_def
proof (intro allI impI, elim conjE)
  fix d :: duration and f :: rat
  let ?x = "rat_of_int (sint d) * (1 + f)"
  assume d: "0 \<le> sint d" and f: "0 < f" and x: "?x < 2 ^ 63"
  have le: "rat_of_int (sint d) \<le> ?x"
    using d f by (simp add: mult_le_cancel_left1 del: of_int_sint)
  then have lo: "sint d \<le> \<lfloor>?x\<rfloor>" by (simp add: le_floor_iff del: of_int_sint)
  have "\<lfloor>?x\<rfloor> < 2 ^ 63" using x by (simp add: floor_less_iff del: of_int_sint)
  moreover have "- (2 ^ 63) \<le> \<lfloor>?x\<rfloor>" using order_trans [OF d lo] by (rule order_trans [rotated]) simp
  ultimately have "sint (full_jitter d f) = \<lfloor>?x\<rfloor>"
    unfolding full_jitter_def by (intro sint_word_of_int64)
  with lo show "sint d \<le> sint (full_jitter d f) \<and> rat_of_int (sint (full_jitter d f)) \<le> ?x"
    by (simp del: of_int_sint)
qed

text \<open>
  The maximum backoff is not a cap on the sleep. The first sleep is the base backoff
  whatever the maximum is, and later sleeps may exceed the maximum by the jitter: with the BestEffort
  settings and a jitter the library admits, the fourth sleep is 6.3 s although the maximum is 6 s.
\<close>

lemma maxBackoff_is_not_a_cap:
  "backoffDuration j 1 base mx = base
   \<and> (\<exists>j. jitter_ok j \<and> sint (backoffDuration j 4 (1 * Second) (6 * Second)) = 6300000000)"
proof -
  have "sint (backoffDuration full_jitter 4 (1 * Second) (6 * Second)) = 6300000000"
    by (simp add: backoffDuration_def full_jitter_def min_duration_def)
  with jitter_ok_full show ?thesis by (auto simp: backoffDuration_def)
qed

text \<open>
  The exponential is computed in 64 bits and wraps around: with the default base and
  maximum the 36th backoff is negative (no sleep at all), and from the 65th attempt on the shift is 0
  whatever the base. The program's own settings (4 and 6 attempts) stay far below.
\<close>

lemma backoffDuration_wraps:
  "sint (backoffDuration (\<lambda>d f. d) 36 (500 * Millisecond) (3 * Second)) < 0
   \<and> backoffDuration j (65 + int n) base mx = j (min_duration 0 mx) (5 / 100)"
proof -
  have "push_bit (nat (65 + int n - 1)) (1 :: duration) = 0"
    by (intro bit_word_eqI) (auto simp: bit_simps)
  then have "base * push_bit (nat (65 + int n - 1)) 1 = 0" by (simp only: mult_zero_right)
  then have "backoffDuration j (65 + int n) base mx = j (min_duration 0 mx) (5 / 100)"
    by (simp only: backoffDuration_def Let_def) simp
  moreover have "sint (backoffDuration (\<lambda>d f. d) 36 (500 * Millisecond) (3 * Second)) < 0"
    by (simp add: backoffDuration_def min_duration_def)
  ultimately show ?thesis by blast
qed

lemma backoffs_sum_guaranteed:
  assumes "\<forall>k. jitter_ok (Jitter env k)"
  shows "sum_list (map (\<lambda>k. max 0 (sint (backoffDuration (Jitter env k) k (500000000) 3000000000))) [1..3])
    \<le> 3650000000"
  using backoffDuration_jitter [OF assms [rule_format, of 2], of 2 500000000 3000000000]
    backoffDuration_jitter [OF assms [rule_format, of 3], of 3 500000000 3000000000]
  by (simp add: upto_rec1 backoffDuration_def [of _ 1])

lemma backoffs_sum_best_effort:
  assumes "\<forall>k. jitter_ok (Jitter env k)"
  shows "sum_list (map (\<lambda>k. max 0 (sint (backoffDuration (Jitter env k) k 1000000000 6000000000))) [1..5])
    \<le> 19900000000"
  using backoffDuration_jitter [OF assms [rule_format, of 2], of 2 1000000000 6000000000]
    backoffDuration_jitter [OF assms [rule_format, of 3], of 3 1000000000 6000000000]
    backoffDuration_jitter [OF assms [rule_format, of 4], of 4 1000000000 6000000000]
    backoffDuration_jitter [OF assms [rule_format, of 5], of 5 1000000000 6000000000]
  by (simp add: upto_rec1 backoffDuration_def [of _ 1])

text \<open>The slowest sink: every attempt runs into the client timeout and every backoff has the full jitter.\<close>

definition slow_send :: send_env where
  "slow_send =
     \<lparr>gzipWrite = (\<lambda>_. None), gzipClose = (\<lambda>_. None), gzipBytes = id, NewRequest = (\<lambda>_. None),
      clientAt = (\<lambda>_. \<lparr>Timeout = 15 * Second, Transport = None\<rparr>),
      Do = (\<lambda>_ _ _. DoError (Errors_New ''timeout'')), DoTime = (\<lambda>_ _ _. 15000000000),
      Jitter = (\<lambda>_. full_jitter), timerWins = (\<lambda>_. True)\<rparr>"

lemma slow_send_simps [simp]: "Jitter slow_send = (\<lambda>_. full_jitter)" "DoTime slow_send = (\<lambda>_ _ _. 15000000000)"
  "timerWins slow_send = (\<lambda>_. True)"
  by (simp_all add: slow_send_def)

lemma slow_attempt:
  "\<exists>e s1. send_attempt slow_send o1 l payload k s = (Inr e, s1) \<and> clock s1 = clock s + 15000000000"
  by (simp add: send_attempt_def slow_send_def Let_def)

lemma slow_loop_clock:
  assumes "k \<le> maxSendAttempts o1" and "ctx_done ctx = None"
  shows "clock (snd (send_loop slow_send o1 ctx l payload k le s)) = clock s + (maxSendAttempts o1 - k + 1) * 15000000000
    + sum_list (map (\<lambda>j. max 0 (sint (backoff_at slow_send o1 j))) [k..maxSendAttempts o1 - 1])"
  using assms(1)
proof (induction "nat (maxSendAttempts o1 - k)" arbitrary: k le s)
  case 0
  then have "k = maxSendAttempts o1" by simp
  with slow_attempt [of o1 l payload k s] show ?case by (auto simp: send_loop_exhausted)
next
  case (Suc n)
  then have k: "k < maxSendAttempts o1" by simp
  obtain e s1 where a: "send_attempt slow_send o1 l payload k s = (Inr e, s1)" "clock s1 = clock s + 15000000000"
    using slow_attempt by blast
  let ?d = "max 0 (sint (backoff_at slow_send o1 k))"
  have "sleepWithContext (timerWins slow_send k) (clock s1) ctx (backoff_at slow_send o1 k) = (None, clock s1 + ?d)"
    using assms(2) by (simp add: sleepWithContext_def)
  note step = send_loop_sleep [OF k a(1) this, of le]
  define s2 where "s2 = s1\<lparr>clock := clock s1 + ?d, sleeps := sleeps s1 @ [backoff_at slow_send o1 k]\<rparr>"
  have s2: "clock s2 = clock s1 + ?d"
    "send_loop slow_send o1 ctx l payload k le s = send_loop slow_send o1 ctx l payload (k + 1) (Some e) s2"
    using step by (simp_all add: s2_def)
  have "clock (snd (send_loop slow_send o1 ctx l payload (k + 1) (Some e) s2))
    = clock s2 + (maxSendAttempts o1 - (k + 1) + 1) * 15000000000
      + sum_list (map (\<lambda>j. max 0 (sint (backoff_at slow_send o1 j))) [k + 1..maxSendAttempts o1 - 1])"
    by (rule Suc.hyps(1)) (use Suc.hyps(2) k in auto)
  moreover have "sum_list (map (\<lambda>j. max 0 (sint (backoff_at slow_send o1 j))) [k..maxSendAttempts o1 - 1])
    = ?d + sum_list (map (\<lambda>j. max 0 (sint (backoff_at slow_send o1 j))) [k + 1..maxSendAttempts o1 - 1])"
    using k by (simp add: upto_rec1 [of k])
  ultimately show ?case using s2 a(2) by (simp only: left_diff_distrib distrib_right)
qed

lemma slow_backoffs:
  "sum_list (map (\<lambda>k. max 0 (sint (backoffDuration full_jitter k 500000000 3000000000))) [1..3]) = 3650000000"
  "sum_list (map (\<lambda>k. max 0 (sint (backoffDuration full_jitter k 1000000000 6000000000))) [1..5]) = 19900000000"
  by (simp_all add: upto_rec1 backoffDuration_def full_jitter_def min_duration_def)

abbreviation longest_send :: "HttpOutput \<Rightarrow> int" where
  "longest_send o1 \<equiv> (if maxSendAttempts o1 = 4 then 63650000000 else 109900000000)"

lemma Send_time_le:
  assumes "\<forall>k. jitter_ok (Jitter env k)"
    and "\<forall>k c req. 0 \<le> DoTime env k c req \<and> DoTime env k c req \<le> sint (15 * Second)"
    and "(maxSendAttempts o1, baseBackoff o1, maxBackoff o1) \<in>
           {(4, 500 * Millisecond, 3 * Second), (6, 1 * Second, 6 * Second)}"
    and "Send env o1 ctx data s = (r, s')"
  shows "clock s' \<le> clock s + longest_send o1"
proof (cases "send_payload env o1 data")
  case (Inl e)
  with assms(4) show ?thesis by (simp add: Send_def)
next
  case (Inr payload)
  have dt: "\<forall>k. do_time env o1 payload k \<le> 15000000000"
    using assms(2) by (simp add: do_time_def)
  from assms(4) Inr obtain l where "send_loop env o1 ctx l payload 1 None s = (r, s')"
    by (simp add: Send_def)
  from send_loop_time [OF dt _ _ this] assms(3)
  have "clock s' \<le> clock s + maxSendAttempts o1 * 15000000000
    + sum_list (map (\<lambda>j. max 0 (sint (backoff_at env o1 j))) [1..maxSendAttempts o1 - 1])"
    by auto
  moreover have "sum_list (map (\<lambda>j. max 0 (sint (backoff_at env o1 j))) [1..maxSendAttempts o1 - 1])
    \<le> (if maxSendAttempts o1 = 4 then 3650000000 else 19900000000)"
    using assms(3) backoffs_sum_guaranteed [OF assms(1)] backoffs_sum_best_effort [OF assms(1)]
    by auto
  ultimately show ?thesis using assms(3) by auto
qed

lemma Send_time_slow:
  assumes "ctx_done ctx = None" and "(maxSendAttempts o1, baseBackoff o1, maxBackoff o1) \<in>
           {(4, 500 * Millisecond, 3 * Second), (6, 1 * Second, 6 * Second)}"
  shows "clock (snd (Send slow_send o1 ctx data s)) = clock s + longest_send o1"
proof -
  obtain payload where "send_payload slow_send o1 data = Inr payload" by (simp add: send_payload_def slow_send_def)
  with slow_loop_clock [of 1 o1 ctx _ payload None s] assms slow_backoffs show ?thesis
    by (auto simp: Send_def)
qed

text \<open>
  Property C36. How long one \<^verbatim>\<open>Send\<close> can take when every attempt ends within the client timeout of 15
  seconds: at most 63.65 s for a Guaranteed output, at most 109.9 s for a BestEffort output. While the context
  is not cancelled both bounds are attained, so a slow sink holds a request far longer than the write timeout
  of 15 s of the audit server, and a background send longer than the 30 s \<^verbatim>\<open>Shutdown\<close> waits.
\<close>

theorem Send_time_bound:
  assumes "\<forall>k. jitter_ok (Jitter env k)"
    and "\<forall>k c req. 0 \<le> DoTime env k c req \<and> DoTime env k c req \<le> sint (15 * Second)"
    and "(maxSendAttempts o1, baseBackoff o1, maxBackoff o1) \<in>
           {(4, 500 * Millisecond, 3 * Second), (6, 1 * Second, 6 * Second)}"
    and "Send env o1 ctx data s = (r, s')"
  shows "let longest = (if maxSendAttempts o1 = 4 then 63650000000 else 109900000000)
    in clock s' \<le> clock s + longest
     \<and> (ctx_done ctx = None \<longrightarrow>
          (\<exists>env. (\<forall>k. jitter_ok (Jitter env k))
             \<and> (\<forall>k c req. 0 \<le> DoTime env k c req \<and> DoTime env k c req \<le> sint (15 * Second))
             \<and> clock (snd (Send env o1 ctx data s)) = clock s + longest))"
  using Send_time_le [OF assms] Send_time_slow [of ctx o1 data s] assms(3) jitter_ok_full
  by (auto simp: Let_def intro!: exI [of _ slow_send])

section \<open>Concrete runs\<close>

text \<open>A server that is busy until attempt \<open>n\<close> and then accepts; a gzip stand-in that reverses.\<close>

definition sample_send :: "int \<Rightarrow> send_env" where
  "sample_send n =
     \<lparr>gzipWrite = (\<lambda>_. None), gzipClose = (\<lambda>_. None), gzipBytes = rev, NewRequest = (\<lambda>_. None),
      clientAt = (\<lambda>_. \<lparr>Timeout = 15 * Second, Transport = None\<rparr>),
      Do = (\<lambda>k _ _. if k < n then DoResponse \<lparr>StatusCode = 503, BodyRead = Inr ''busy'', BodyClose = None\<rparr>
                    else DoResponse \<lparr>StatusCode = 200, BodyRead = Inr '''', BodyClose = None\<rparr>),
      DoTime = (\<lambda>_ _ _. 7), Jitter = (\<lambda>_ d _. d), timerWins = (\<lambda>_. True)\<rparr>"

definition sample_out :: HttpOutput where
  "sample_out = new_output \<lparr>URL = ''https://example.com'', HTTPTLS = None, Compression = ''gzip''\<rparr>
     \<lparr>Timeout = 15 * Second, Transport = None\<rparr>"

definition sample_state :: send_state where
  "sample_state = \<lparr>clock = 0, sent = [], sleeps = [], send_log = []\<rparr>"

lemmas sample_send_simps =
  sample_send_def sample_out_def sample_state_def new_output_def send_payload_def contentEncodingGzip_def

lemma sample_payload: "send_payload (sample_send n) sample_out data = Inr (rev data)"
  by (simp add: sample_send_simps)

lemma sample_verdict:
  "verdict (sample_send n) sample_out p k = (if k < n then Inr (status_error 503 ''busy'') else Inl None)"
  by (simp add: verdict_def sample_send_simps isRetryableStatus_def)

lemma sample_max: "maxSendAttempts sample_out = 4"
  by (simp add: sample_send_simps)

lemma sample_fields:
  "NewRequest (sample_send n) u = None" "DoTime (sample_send n) k c req = 7" "gzipBytes (sample_send n) = rev"
  "sent sample_state = []" "clock sample_state = 0" "out_compression sample_out = ''gzip''"
  "baseBackoff sample_out = 500000000" "maxBackoff sample_out = 3000000000"
  by (simp_all add: sample_send_simps)


theorem Send_uncancelled_witness:
  "fst (Send (sample_send 3) sample_out context_Background ''ab'' sample_state) = None
   \<and> length (sent (snd (Send (sample_send 3) sample_out context_Background ''ab'' sample_state))) = 3"
proof -
  have "fst (Send (sample_send 3) sample_out context_Background ''ab'' sample_state)
      = case_sum (\<lambda>r. r) Some (verdict (sample_send 3) sample_out (rev ''ab'') 3)
    \<and> sent (snd (Send (sample_send 3) sample_out context_Background ''ab'' sample_state))
      = sent sample_state @ attempt_requests (sample_send 3) sample_out (rev ''ab'') 1 3"
    by (rule Send_uncancelled) (auto simp: sample_payload sample_verdict sample_max context_Background_def)
  then show ?thesis
    by (simp add: sample_verdict attempt_requests_def sample_fields upto_rec1)
qed

theorem Send_no_attempts_witness:
  "Send (sample_send 3) (sample_out\<lparr>maxSendAttempts := 0, out_compression := ''''\<rparr>) context_Background
     ''ab'' sample_state = (None, sample_state)"
  by (rule Send_no_attempts) simp_all


theorem Send_wire_format_witness:
  "\<exists>new. sent (snd (Send (sample_send 2) sample_out context_Background ''ab'' sample_state)) = new
     \<and> (\<forall>(c, req)\<in>set new. rev (ReqBody req) = ''ab'')"
proof -
  obtain r s' where se: "Send (sample_send 2) sample_out context_Background ''ab'' sample_state = (r, s')"
    by fastforce
  have "\<forall>d. rev (gzipBytes (sample_send 2) d) = d" by (simp add: sample_send_def)
  from Send_wire_format [OF this _ se] show ?thesis
    unfolding se by (fastforce simp: sample_fields sample_max)
qed

theorem Send_time_bound_witness:
  "clock (snd (Send (sample_send 3) sample_out context_Background ''ab'' sample_state)) \<le> 63650000000"
proof -
  obtain r s' where se: "Send (sample_send 3) sample_out context_Background ''ab'' sample_state = (r, s')"
    by fastforce
  have "clock s' \<le> clock sample_state + (if maxSendAttempts sample_out = 4 then 63650000000 else 109900000000)"
    using Send_time_bound [OF _ _ _ se] by (simp add: sample_send_simps jitter_ok_id Let_def sample_max)
  with se show ?thesis by (simp add: sample_max sample_state_def)
qed

end
