(* ===== verification/Annotation.thy ===== *)
theory Annotation
  imports Interfaces "HOL-Library.Finite_Map"
begin

text \<open>
  Audit events and the annotation injector: \<^verbatim>\<open>src/internal/helper/audit_event.go\<close> and
  \<^verbatim>\<open>src/internal/processor/annotation/annotation.go\<close>.

  The audit types and their codec belong to k8s.io/apiserver. Of an event the code reads and writes
  only \<open>Annotations\<close> (a map, or nil); everything else an event or the list carries is left abstract
  (the type parameters). The decoder and the encoder are the record \<open>codec\<close>; the documented behaviour
  the round-trip properties use is the predicate \<open>codec_ok\<close>. Go visits the entries of a map in any
  order: the argument \<open>order\<close> gives the order for each event.

  The lemmas show what \<^verbatim>\<open>Process\<close> does to every event, for every order of the map, that it keeps
  everything but the annotations, and that processing twice is processing once.
\<close>

section \<open>Events\<close>

type_synonym annotations = "(string, string) fmap"

record 'e audit_event =
  Annotations :: "annotations option"
  event_fields :: 'e

record ('e, 'l) EventList =
  Items :: "'e audit_event list"
  list_fields :: 'l

datatype ('e, 'l) runtime_object = EventListObject "('e, 'l) EventList" | OtherObject

text \<open>\<^verbatim>\<open>Decode\<close> gives the object with its schema version (as \<^verbatim>\<open>%v\<close> prints it).\<close>

record ('e, 'l) codec =
  Decode :: "bytes \<Rightarrow> (('e, 'l) runtime_object \<times> string) result"
  Encode :: "('e, 'l) EventList \<Rightarrow> bytes result"

section \<open>audit\_event.go\<close>

definition DecodeEventList :: "('e, 'l) codec \<Rightarrow> bytes \<Rightarrow> ('e, 'l) EventList result" where
  "DecodeEventList c data =
     (case Decode c data of
        Inl e \<Rightarrow> Inl e
      | Inr (internal, schemaVersion) \<Rightarrow>
          (case internal of
             EventListObject out \<Rightarrow> Inr out
           | OtherObject \<Rightarrow>
               Inl (Errors_New (''failure to cast to auditlog internal; type: '' @ schemaVersion))))"

definition EncodeEventList :: "('e, 'l) codec \<Rightarrow> ('e, 'l) EventList \<Rightarrow> bytes result" where
  "EncodeEventList c eventList = Encode c eventList"

section \<open>annotation.go\<close>

record Injector =
  annotations :: go_map

definition Injector_New :: "go_map \<Rightarrow> Injector" where
  "Injector_New anns = \<lparr>annotations = anns\<rparr>"

text \<open>\<^verbatim>\<open>maps.Insert\<close>: the pairs of a sequence are stored one after the other.\<close>

definition maps_Insert :: "annotations \<Rightarrow> (string \<times> string) list \<Rightarrow> annotations" where
  "maps_Insert m seq = fold (\<lambda>(k, v) m. fmupd k v m) seq m"

text \<open>The loop over the items; \<open>i\<close> is the index of the first event of the rest.\<close>

fun inject_loop ::
    "(nat \<Rightarrow> go_map \<Rightarrow> go_map) \<Rightarrow> go_map \<Rightarrow> nat \<Rightarrow> 'e audit_event list \<Rightarrow> 'e audit_event list" where
  "inject_loop order anns i [] = []"
| "inject_loop order anns i (ev # evs) =
     (let m = (case Annotations ev of None \<Rightarrow> fmempty | Some m \<Rightarrow> m)
      in ev\<lparr>Annotations := Some (maps_Insert m (order i anns))\<rparr> # inject_loop order anns (Suc i) evs)"

definition Injector_Process ::
    "('e, 'l) codec \<Rightarrow> (nat \<Rightarrow> go_map \<Rightarrow> go_map) \<Rightarrow> Injector \<Rightarrow> go_context \<Rightarrow> bytes \<Rightarrow> bytes result" where
  "Injector_Process c order a ctx data =
     (if annotations a = [] then Inr data
      else
        (case DecodeEventList c data of
           Inl e \<Rightarrow> Inl e
         | Inr eventList \<Rightarrow>
             EncodeEventList c (eventList\<lparr>Items := inject_loop order (annotations a) 0 (Items eventList)\<rparr>)))"

definition Injector_Name :: string where
  "Injector_Name = ''audit-event-annotation-injector''"

definition Injector_processor ::
    "('e, 'l) codec \<Rightarrow> (nat \<Rightarrow> go_map \<Rightarrow> go_map) \<Rightarrow> Injector \<Rightarrow> processor" where
  "Injector_processor c order a =
     \<lparr>Process = Injector_Process c order a, processor_Name = Injector_Name\<rparr>"

interpretation injector: data_processor "Injector_processor c order a" for c order a
  by unfold_locales (simp add: Injector_processor_def Injector_Process_def)

section \<open>What injection does\<close>

text \<open>Declaratively: the configured annotations override those of the event.\<close>

definition injected :: "annotations \<Rightarrow> 'e audit_event \<Rightarrow> 'e audit_event" where
  "injected anns ev =
     ev\<lparr>Annotations := Some ((case Annotations ev of None \<Rightarrow> fmempty | Some m \<Rightarrow> m) ++\<^sub>f anns)\<rparr>"

definition inject_list :: "annotations \<Rightarrow> ('e, 'l) EventList \<Rightarrow> ('e, 'l) EventList" where
  "inject_list anns el = el\<lparr>Items := map (injected anns) (Items el)\<rparr>"

text \<open>A map's entries have distinct keys, and a \<^verbatim>\<open>range\<close> visits each of them once, in some order.\<close>

definition range_order :: "(nat \<Rightarrow> go_map \<Rightarrow> go_map) \<Rightarrow> bool" where
  "range_order order \<longleftrightarrow> (\<forall>i m. mset (order i m) = mset m)"

lemma range_order_id [simp]: "range_order (\<lambda>i m. m)"
  by (simp add: range_order_def)

lemma range_order_rev [simp]: "range_order (\<lambda>i m. rev m)"
  by (simp add: range_order_def)

lemma maps_Insert_lookup:
  "fmlookup (maps_Insert m seq) = fmlookup m ++ map_of (rev seq)"
  unfolding maps_Insert_def
  by (induction seq arbitrary: m) (auto simp: map_add_def fun_eq_iff split: option.splits)

lemma map_of_perm:
  assumes "distinct (map fst xs)" and "mset ys = mset xs"
  shows "map_of ys = map_of xs"
proof -
  have "mset (map fst ys) = mset (map fst xs)" using assms(2) by (metis mset_map)
  then have "distinct (map fst ys)" using assms(1) mset_eq_imp_distinct_iff by blast
  moreover have "set ys = set xs" using assms(2) by (rule mset_eq_setD)
  ultimately show ?thesis by (intro map_of_eqI) (auto simp: assms(1) intro: map_of_eqI)
qed

lemma maps_Insert_eq:
  assumes "distinct (map fst anns)" and "mset seq = mset anns"
  shows "maps_Insert m seq = m ++\<^sub>f fmap_of_list anns"
proof -
  have "map_of (rev seq) = map_of anns"
    using assms by (intro map_of_perm) simp_all
  then show ?thesis
    by (intro fmap_ext) (auto simp: maps_Insert_lookup fmlookup_of_list map_add_def 
        map_of_eq_None_iff fset_of_list.rep_eq split: option.splits dest: map_of_SomeD intro: rev_image_eqI)
qed

lemma inject_loop_eq:
  assumes "distinct (map fst anns)" and "range_order order"
  shows "inject_loop order anns i evs = map (injected (fmap_of_list anns)) evs"
  using assms(2)
  by (induction evs arbitrary: i)
     (simp_all add: range_order_def maps_Insert_eq [OF assms(1)] injected_def Let_def)


lemma Injector_Process_eq:
  assumes "distinct (map fst (annotations a))" and "range_order order"
  shows "Injector_Process c order a ctx data =
     (if annotations a = [] then Inr data
      else case DecodeEventList c data of
             Inl e \<Rightarrow> Inl e
           | Inr el \<Rightarrow> EncodeEventList c (inject_list (fmap_of_list (annotations a)) el))"
  by (auto simp: Injector_Process_def inject_loop_eq [OF assms] inject_list_def split: sum.splits)

section \<open>Round trips\<close>

text \<open>
  The documented behaviour of the codec, on lists in the form decoding gives them: a list is \<open>canonical\<close>
  when its other fields survive the versioned encoding (\<open>fine\<close>; precision of timestamps, for example)
  and no event has an empty but non-nil annotation map (encoded like an absent one). Decoding gives
  canonical lists, and a canonical list is what its encoding decodes to.
\<close>

definition canonical :: "('l \<Rightarrow> 'e list \<Rightarrow> bool) \<Rightarrow> ('e, 'l) EventList \<Rightarrow> bool" where
  "canonical fine el \<longleftrightarrow> fine (list_fields el) (map event_fields (Items el))
     \<and> (\<forall>ev\<in>set (Items el). Annotations ev \<noteq> Some fmempty)"

definition codec_ok :: "('e, 'l) codec \<Rightarrow> ('l \<Rightarrow> 'e list \<Rightarrow> bool) \<Rightarrow> bool" where
  "codec_ok c fine \<longleftrightarrow>
     (\<forall>data el v. Decode c data = Inr (EventListObject el, v) \<longrightarrow> canonical fine el)
   \<and> (\<forall>el data. canonical fine el \<and> Encode c el = Inr data \<longrightarrow>
        (\<exists>v. Decode c data = Inr (EventListObject el, v)))"

lemma fmdom_empty_iff: "fmdom m = {||} \<longleftrightarrow> m = fmempty"
  by (metis fmdom_empty fmrestrict_fset_dom fmrestrict_fset_null)

lemma fmadd_nonempty: "n \<noteq> fmempty \<Longrightarrow> m ++\<^sub>f n \<noteq> fmempty"
  by (simp add: fmdom_empty_iff [symmetric])

lemma canonical_inject:
  "canonical fine el \<Longrightarrow> anns \<noteq> fmempty \<Longrightarrow> canonical fine (inject_list anns el)"
  by (auto simp: canonical_def inject_list_def injected_def o_def fmadd_nonempty)

lemma decode_inject:
  assumes "codec_ok c fine" and "DecodeEventList c data = Inr el" and "anns \<noteq> fmempty"
    and "EncodeEventList c (inject_list anns el) = Inr out"
  shows "DecodeEventList c out = Inr (inject_list anns el)"
proof -
  from assms(2) obtain v where "Decode c data = Inr (EventListObject el, v)"
    by (auto simp: DecodeEventList_def split: sum.splits runtime_object.splits)
  with assms(1) have "canonical fine el" by (auto simp: codec_ok_def)
  then have "canonical fine (inject_list anns el)" using assms(3) by (rule canonical_inject)
  with assms(1,4) obtain v' where "Decode c out = Inr (EventListObject (inject_list anns el), v')"
    unfolding codec_ok_def EncodeEventList_def by blast
  then show ?thesis by (simp add: DecodeEventList_def)
qed

lemma fmadd_same: "(m ++\<^sub>f n) ++\<^sub>f n = m ++\<^sub>f n"
  by (metis fmadd_assoc fmadd_idempotent)

lemma inject_list_idem: "inject_list anns (inject_list anns el) = inject_list anns el"
  by (simp add: inject_list_def injected_def fmadd_same)

lemma fmap_of_list_eq_empty: "fmap_of_list xs = fmempty \<longleftrightarrow> xs = []"
  by (cases xs) (auto simp: fmdom_empty_iff [symmetric])


section \<open>Properties\<close>

text \<open>
  Property C13. The injector on every branch. With no annotations configured the data passes through
  untouched, even data that is no event list. Otherwise data that does not decode, or decodes to another
  kind of object, is refused with an error and nothing is forwarded; and a decoded list is encoded with
  the configured annotations laid over those of every event. The order in which Go visits the
  configured map has no influence on the result.
\<close>

theorem Injector_Process_branches:
  assumes "distinct (map fst anns)" and "range_order order"
  shows "Injector_Process c order (Injector_New anns) ctx data =
     (if anns = [] then Inr data
      else case Decode c data of
             Inl e \<Rightarrow> Inl e
           | Inr (OtherObject, v) \<Rightarrow>
               Inl (Errors_New (''failure to cast to auditlog internal; type: '' @ v))
           | Inr (EventListObject el, v) \<Rightarrow>
               Encode c (el\<lparr>Items := map (injected (fmap_of_list anns)) (Items el)\<rparr>))"
  using Injector_Process_eq [of "Injector_New anns" order c ctx data] assms
  by (auto simp: Injector_New_def DecodeEventList_def EncodeEventList_def inject_list_def
      split: sum.splits runtime_object.splits)


text \<open>
  Processing is idempotent: a batch that an audit client sends again after it was already
  processed, or that passes two forwarders with the same configuration, comes out the same.
\<close>

lemma Injector_Process_idempotent:
  assumes "codec_ok c fine" and "distinct (map fst anns)" and "range_order order" and "range_order order'"
    and "Injector_Process c order (Injector_New anns) ctx data = Inr out"
  shows "Injector_Process c order' (Injector_New anns) ctx' out = Inr out"
proof (cases "anns = []")
  case True
  then show ?thesis by (simp add: Injector_Process_def Injector_New_def)
next
  case False
  let ?anns = "fmap_of_list anns"
  have ne: "?anns \<noteq> fmempty" using False by (simp add: fmap_of_list_eq_empty)
  have p: "Injector_Process c r (Injector_New anns) x d =
      (case DecodeEventList c d of Inl e \<Rightarrow> Inl e | Inr el \<Rightarrow> EncodeEventList c (inject_list ?anns el))"
    if "range_order r" for r x d
    using Injector_Process_eq [of "Injector_New anns" r c x d] assms(2) that False
    by (cases "DecodeEventList c d") (simp_all add: Injector_New_def)
  obtain el where el: "DecodeEventList c data = Inr el" "EncodeEventList c (inject_list ?anns el) = Inr out"
    using assms(5) p [OF assms(3)] by (auto split: sum.splits)
  from decode_inject [OF assms(1) el(1) ne el(2)] el(2) show ?thesis
    by (simp add: p [OF assms(4)] inject_list_idem)
qed

section \<open>A concrete codec\<close>

text \<open>A codec for one list with one event, with and without the annotation \<^verbatim>\<open>shoot\<close>.\<close>

definition sample_list :: "(string, string) EventList" where
  "sample_list = \<lparr>Items = [\<lparr>Annotations = None, event_fields = ''get pods''\<rparr>], list_fields = ''meta''\<rparr>"

definition sample_anns :: go_map where
  "sample_anns = [(''shoot'', ''a''), (''seed'', ''b'')]"

definition sample_codec :: "(string, string) codec" where
  "sample_codec =
     \<lparr>Decode = (\<lambda>data. if data = ''plain'' then Inr (EventListObject sample_list, ''v1'')
                      else if data = ''annotated''
                      then Inr (EventListObject (inject_list (fmap_of_list sample_anns) sample_list), ''v1'')
                      else Inl (Errors_New ''no kind'')),
      Encode = (\<lambda>el. if el = sample_list then Inr ''plain''
                    else if el = inject_list (fmap_of_list sample_anns) sample_list then Inr ''annotated''
                    else Inl (Errors_New ''too large''))\<rparr>"

lemma sample_injected_differs: "inject_list m sample_list \<noteq> sample_list"
  by (simp add: inject_list_def injected_def sample_list_def)

lemma sample_codec_ok: "codec_ok sample_codec (\<lambda>_ _. True)"
proof -
  have "canonical (\<lambda>_ _. True) sample_list" by (simp add: canonical_def sample_list_def)
  moreover have "fmap_of_list sample_anns \<noteq> fmempty" by (simp add: fmap_of_list_eq_empty sample_anns_def)
  ultimately show ?thesis
    using canonical_inject [of "\<lambda>_ _. True" sample_list "fmap_of_list sample_anns"]
    by (auto simp: codec_ok_def sample_codec_def split: if_splits)
qed

lemma sample_anns_distinct: "distinct (map fst sample_anns)"
  by (simp add: sample_anns_def)

lemma sample_process:
  "range_order order \<Longrightarrow>
   Injector_Process sample_codec order (Injector_New sample_anns) ctx ''plain'' = Inr ''annotated''"
  using Injector_Process_eq [of "Injector_New sample_anns" order sample_codec ctx "''plain''"]
    sample_injected_differs sample_anns_distinct
  by (simp add: Injector_New_def sample_anns_def [THEN arg_cong [of _ _ "\<lambda>x. x = []"]] DecodeEventList_def
      EncodeEventList_def sample_codec_def)

theorem Injector_Process_branches_witness:
  "Injector_Process sample_codec (\<lambda>i. rev) (Injector_New sample_anns) context_Background ''junk''
     = Inl (Errors_New ''no kind'')"
  using Injector_Process_branches [OF sample_anns_distinct range_order_rev, of sample_codec context_Background "''junk''"]
  by (simp add: sample_anns_def sample_codec_def)


theorem Injector_Process_idempotent_witness:
  "Injector_Process sample_codec (\<lambda>i m. m) (Injector_New sample_anns) context_Background ''annotated''
     = Inr ''annotated''"
  by (rule Injector_Process_idempotent [OF sample_codec_ok sample_anns_distinct range_order_rev range_order_id
      sample_process [OF range_order_rev]])

end
