(* ===== verification/App.thy ===== *)
theory App
  imports Options HttpSend Annotation Handler StepSystem
begin

text \<open>
  The command, \<^verbatim>\<open>src/cmd/auditlog-forwarder/app/app.go\<close>: start-up (\<^verbatim>\<open>NewCommand\<close>'s \<^verbatim>\<open>RunE\<close>,
  \<^verbatim>\<open>setupLogging\<close>), and \<^verbatim>\<open>run\<close> with its two servers.

  \<^verbatim>\<open>run\<close> starts two goroutines, each of which runs \<^verbatim>\<open>runServer\<close>, hands its result to the caller over an
  unbuffered channel and then cancels the context of the other. This is the step relation \<open>run_step\<close>:
  at any time the command's context may be cancelled (a signal) and a listener may return; everything
  else is what the code does next. The deferred \<^verbatim>\<open>closeOutputs\<close> acts on the file-watcher world of the
  HTTP outputs. Certificates, sockets and the HTTP protocol are outside the model, and so
  are the lines \<^verbatim>\<open>RunE\<close> logs about the version and the flags.
\<close>

section \<open>setupLogging\<close>

datatype slog_level = LevelDebug | LevelInfo | LevelError

datatype slog_handler = TextHandler slog_level | JSONHandler slog_level

definition setupLogging :: "string \<Rightarrow> string \<Rightarrow> slog_handler" where
  "setupLogging level format =
     (let slogLevel = (if level = LogLevelDebug then LevelDebug
                       else if level = LogLevelError then LevelError
                       else LevelInfo)
      in if format = LogFormatText then TextHandler slogLevel else JSONHandler slogLevel)"

text \<open>\<^verbatim>\<open>logr.FromSlogHandler\<close>: a logger with no name and no values yet.\<close>

definition FromSlogHandler :: "slog_handler \<Rightarrow> logger" where
  "FromSlogHandler h = Logger [] []"

section \<open>RunE\<close>

text \<open>
  The command up to the call of \<^verbatim>\<open>run\<close>: an error, or the configuration, the logger and the logging set-up
  that \<^verbatim>\<open>run\<close> gets.
\<close>

definition RunE ::
    "app_env \<Rightarrow> Options \<Rightarrow> fs_world \<Rightarrow> ((AppConfig \<times> slog_handler) result \<times> fs_world) go_outcome" where
  "RunE env opt w =
     (case Complete env opt of
        (Some e, opt) \<Rightarrow> Return (Inl (wrapf ''cannot complete options: '' e), w)
      | (None, opt) \<Rightarrow>
          (case Validate env opt of
             Panic \<Rightarrow> Panic
           | Return (Some e) \<Rightarrow> Return (Inl (wrapf ''cannot validate options: '' e), w)
           | Return None \<Rightarrow>
               (case Options_LogConfig opt of
                  Panic \<Rightarrow> Panic
                | Return (level, format) \<Rightarrow>
                    (let h = setupLogging level format
                     in case ApplyTo env opt (FromSlogHandler h) empty_AppConfig w of
                          Panic \<Rightarrow> Panic
                        | Return (Some e, conf, w) \<Rightarrow> Return (Inl (wrapf ''cannot apply options: '' e), w)
                        | Return (None, conf, w) \<Rightarrow> Return (Inr (conf, h), w)))))"

section \<open>run: processors and handler\<close>

definition run_processors ::
    "('e, 'l) codec \<Rightarrow> (nat \<Rightarrow> go_map \<Rightarrow> go_map) \<Rightarrow> AppConfig \<Rightarrow> processor list" where
  "run_processors c order conf =
     (if length (cfg_InjectAnnotations conf) > 0
      then [Injector_processor c order (Injector_New (cfg_InjectAnnotations conf))] else [])"

text \<open>The outputs of a configuration as pointers: their addresses are their positions.\<close>

definition output_refs :: "AppConfig \<Rightarrow> http_ref list \<times> http_ref list" where
  "output_refs conf =
     (enumerate 0 (OutputsGuaranteed conf),
      enumerate (length (OutputsGuaranteed conf)) (OutputsBestEffort conf))"

definition run_handler ::
    "('e, 'l) codec \<Rightarrow> (nat \<Rightarrow> go_map \<Rightarrow> go_map) \<Rightarrow> logger \<Rightarrow> AppConfig \<Rightarrow> http_ref Handler result" where
  "run_handler c order l conf =
     (case NewHandler l (run_processors c order conf) (fst (output_refs conf)) (snd (output_refs conf)) of
        Inl e \<Rightarrow> Inl (wrapf ''failed to create audit handler: '' e)
      | Inr h \<Rightarrow> Inr h)"

definition app_closeOutputs ::
    "sys_env \<Rightarrow> logger \<Rightarrow> HttpOutput list list \<Rightarrow> fs_world \<Rightarrow> log_entry list \<times> fs_world" where
  "app_closeOutputs env l outputGroups w =
     (case close_each (Close env) (concat outputGroups) w of
        (es, os, w) \<Rightarrow>
          (concat (map2 (\<lambda>out e. case e of
                           Some e \<Rightarrow> [LogError l e ''Failed to close output'' [(''output'', Name out)]]
                         | None \<Rightarrow> []) (concat outputGroups) es), w))"

section \<open>run: the two servers\<close>

datatype server_id = AuditServer | MetricsServer

text \<open>
  Where a server goroutine is: serving, running the pre-shutdown hook, in \<^verbatim>\<open>srv.Shutdown\<close>, blocked
  sending its result, past the send with the deferred cancel still to run, or gone.
\<close>

datatype server_phase =
    Serving | InHook | Stopping | Sending err | Sent | Exited

datatype main_phase = Selecting | Awaiting server_id err | RunReturned err

datatype app_event = HookCalled | ShutdownCalled server_id | OutputsClosed

definition other :: "server_id \<Rightarrow> server_id" where
  "other x = (case x of AuditServer \<Rightarrow> MetricsServer | MetricsServer \<Rightarrow> AuditServer)"

record run_state =
  rs_phase :: "server_id \<Rightarrow> server_phase"
  rs_cancelled :: "server_id \<Rightarrow> bool"
  rs_main :: main_phase
  rs_ctx :: bool
  rs_world :: fs_world
  rs_trace :: "app_event list"

definition run_init :: "fs_world \<Rightarrow> run_state" where
  "run_init w = \<lparr>rs_phase = (\<lambda>_. Serving), rs_cancelled = (\<lambda>_. False), rs_main = Selecting, rs_ctx = False,
     rs_world = w, rs_trace = []\<rparr>"

definition ErrServerClosed :: go_error where
  "ErrServerClosed = Errors_New ''http: Server closed''"

text \<open>What \<^verbatim>\<open>runServer\<close> receives when its listener returns \<open>e\<close>; what it returns when \<^verbatim>\<open>srv.Shutdown\<close> gives \<open>e\<close>.\<close>

definition listen_result :: "err \<Rightarrow> err" where
  "listen_result e =
     (case e of
        Some e \<Rightarrow> if errors_Is e ErrServerClosed then None else Some (wrapf ''failed serving content: '' e)
      | None \<Rightarrow> None)"

definition shutdown_result :: "err \<Rightarrow> err" where
  "shutdown_result e = map_option (wrapf ''server failed graceful shutdown: '') e"

text \<open>Only the audit server has a pre-shutdown hook.\<close>

definition after_ctx_done :: "server_id \<Rightarrow> server_phase" where
  "after_ctx_done x = (case x of AuditServer \<Rightarrow> InHook | MetricsServer \<Rightarrow> Stopping)"

text \<open>Steps the environment takes (a signal, a listener that returns) and steps of the code.\<close>

datatype actor = ByWorld | ByCode

inductive run_step :: "sys_env \<Rightarrow> logger \<Rightarrow> AppConfig \<Rightarrow> actor \<Rightarrow> run_state \<Rightarrow> run_state \<Rightarrow> bool" for env l conf where
  run_signal: "\<not> rs_ctx s \<Longrightarrow> run_step env l conf ByWorld s (s\<lparr>rs_ctx := True\<rparr>)"
| run_listen: "rs_phase s x = Serving \<Longrightarrow>
    run_step env l conf ByWorld s (s\<lparr>rs_phase := (rs_phase s)(x := Sending (listen_result e))\<rparr>)"
| run_ctx_done: "rs_phase s x = Serving \<Longrightarrow> rs_ctx s \<or> rs_cancelled s x \<Longrightarrow>
    run_step env l conf ByCode s (s\<lparr>rs_phase := (rs_phase s)(x := after_ctx_done x),
      rs_trace := rs_trace s @ (if after_ctx_done x = InHook then [HookCalled] else [ShutdownCalled x])\<rparr>)"
| run_hook_done: "rs_phase s x = InHook \<Longrightarrow>
    run_step env l conf ByCode s (s\<lparr>rs_phase := (rs_phase s)(x := Stopping), rs_trace := rs_trace s @ [ShutdownCalled x]\<rparr>)"
| run_stopped: "rs_phase s x = Stopping \<Longrightarrow>
    run_step env l conf ByCode s (s\<lparr>rs_phase := (rs_phase s)(x := Sending (shutdown_result e))\<rparr>)"
| run_first: "rs_main s = Selecting \<Longrightarrow> rs_phase s x = Sending e \<Longrightarrow>
    run_step env l conf ByCode s (s\<lparr>rs_phase := (rs_phase s)(x := Sent), rs_main := Awaiting (other x) e\<rparr>)"
| run_second: "rs_main s = Awaiting x e \<Longrightarrow> rs_phase s x = Sending e' \<Longrightarrow>
    app_closeOutputs env l [OutputsGuaranteed conf, OutputsBestEffort conf] (rs_world s) = (logs, w') \<Longrightarrow>
    run_step env l conf ByCode s (s\<lparr>rs_phase := (rs_phase s)(x := Sent), rs_main := RunReturned (errors_Join [e, e']),
      rs_world := w', rs_trace := rs_trace s @ [OutputsClosed]\<rparr>)"
| run_cancel: "rs_phase s x = Sent \<Longrightarrow>
    run_step env l conf ByCode s (s\<lparr>rs_phase := (rs_phase s)(x := Exited),
      rs_cancelled := (rs_cancelled s)(other x := True)\<rparr>)"

inductive_cases run_stepE: "run_step env l conf a s s'"


definition run_any :: "sys_env \<Rightarrow> logger \<Rightarrow> AppConfig \<Rightarrow> run_state \<Rightarrow> run_state \<Rightarrow> bool" where
  "run_any env l conf s s' \<longleftrightarrow> (\<exists>a. run_step env l conf a s s')"

section \<open>Invariant of run\<close>

definition handed_over :: "server_phase \<Rightarrow> bool" where
  "handed_over p \<longleftrightarrow> p = Sent \<or> p = Exited"

text \<open>The hook runs before the audit server is shut down; closing the outputs is the last event.\<close>

definition trace_ok :: "app_event list \<Rightarrow> bool" where
  "trace_ok tr \<longleftrightarrow>
     (\<forall>pre post. tr = pre @ ShutdownCalled AuditServer # post \<longrightarrow> HookCalled \<in> set pre)
   \<and> (\<forall>pre post. tr = pre @ OutputsClosed # post \<longrightarrow> post = [])"

definition closed_world :: "sys_env \<Rightarrow> logger \<Rightarrow> AppConfig \<Rightarrow> fs_world \<Rightarrow> fs_world" where
  "closed_world env l conf w = snd (app_closeOutputs env l [OutputsGuaranteed conf, OutputsBestEffort conf] w)"

definition run_inv :: "sys_env \<Rightarrow> logger \<Rightarrow> AppConfig \<Rightarrow> fs_world \<Rightarrow> run_state \<Rightarrow> bool" where
  "run_inv env l conf w s \<longleftrightarrow>
     (case rs_main s of
        Selecting \<Rightarrow> (\<forall>x. \<not> handed_over (rs_phase s x))
      | Awaiting x e \<Rightarrow> \<not> handed_over (rs_phase s x) \<and> handed_over (rs_phase s (other x))
      | RunReturned r \<Rightarrow> (\<forall>x. handed_over (rs_phase s x)))
   \<and> (\<forall>x. rs_phase s x = Exited \<longrightarrow> rs_cancelled s (other x))
   \<and> (rs_phase s AuditServer = InHook \<or> rs_phase s AuditServer = Stopping \<longrightarrow> HookCalled \<in> set (rs_trace s))
   \<and> rs_phase s MetricsServer \<noteq> InHook
   \<and> trace_ok (rs_trace s)
   \<and> (if \<exists>r. rs_main s = RunReturned r then rs_world s = closed_world env l conf w \<and> OutputsClosed \<in> set (rs_trace s)
      else rs_world s = w \<and> OutputsClosed \<notin> set (rs_trace s))"

lemma other_simps [simp]:
  "other AuditServer = MetricsServer" "other MetricsServer = AuditServer" "other (other x) = x"
  "other x \<noteq> x" "x \<noteq> other x"
  by (auto simp: other_def split: server_id.splits)

lemma all_servers: "(\<forall>x. P x) \<longleftrightarrow> P AuditServer \<and> P MetricsServer"
  by (metis server_id.exhaust)

lemma trace_ok_Nil: "trace_ok []"
  by (simp add: trace_ok_def)

lemma trace_ok_snoc:
  assumes "trace_ok tr" and "OutputsClosed \<notin> set tr" and "ev = ShutdownCalled AuditServer \<Longrightarrow> HookCalled \<in> set tr"
  shows "trace_ok (tr @ [ev])"
proof -
  have "HookCalled \<in> set pre" if eq: "tr @ [ev] = pre @ ShutdownCalled AuditServer # post" for pre post
  proof (cases post rule: rev_cases)
    case Nil
    with eq assms(3) show ?thesis by auto
  next
    case (snoc zs z)
    with eq have "tr = pre @ ShutdownCalled AuditServer # zs" by simp
    with assms(1) show ?thesis unfolding trace_ok_def by blast
  qed
  moreover have "post = []" if eq: "tr @ [ev] = pre @ OutputsClosed # post" for pre post
  proof (cases post rule: rev_cases)
    case (snoc zs z)
    with eq have "tr = pre @ OutputsClosed # zs" by simp
    with assms(2) show ?thesis by auto
  qed simp
  ultimately show ?thesis by (simp add: trace_ok_def)
qed

lemma run_init_inv: "run_inv env l conf w (run_init w)"
  by (simp add: run_inv_def run_init_def handed_over_def trace_ok_Nil)

lemma run_inv_not_returned:
  "run_inv env l conf w s \<Longrightarrow> \<not> handed_over (rs_phase s x) \<Longrightarrow> rs_main s \<noteq> RunReturned r"
  by (auto simp: run_inv_def)

lemma run_inv_step:
  assumes "run_step env l conf a s s'" and inv: "run_inv env l conf w s"
  shows "run_inv env l conf w s'"
  using assms(1)
proof (cases rule: run_step.cases)
  case (run_ctx_done x)
  then have nr: "rs_main s \<noteq> RunReturned r" for r
    by (intro run_inv_not_returned [OF inv, of x]) (simp add: handed_over_def)
  with inv have "trace_ok (rs_trace s)" "OutputsClosed \<notin> set (rs_trace s)" by (auto simp: run_inv_def)
  then have "trace_ok (rs_trace s @ [HookCalled])" "trace_ok (rs_trace s @ [ShutdownCalled MetricsServer])"
    by (auto intro!: trace_ok_snoc)
  with run_ctx_done inv nr show ?thesis
    by (cases x) (auto simp: run_inv_def handed_over_def after_ctx_done_def split: main_phase.splits)
next
  case (run_hook_done x)
  then have nr: "rs_main s \<noteq> RunReturned r" for r
    by (intro run_inv_not_returned [OF inv, of x]) (simp add: handed_over_def)
  have x: "x = AuditServer" using run_hook_done inv by (cases x) (simp_all add: run_inv_def)
  with inv run_hook_done nr have "trace_ok (rs_trace s)" "OutputsClosed \<notin> set (rs_trace s)" "HookCalled \<in> set (rs_trace s)"
    by (auto simp: run_inv_def)
  then have "trace_ok (rs_trace s @ [ShutdownCalled AuditServer])" by (auto intro!: trace_ok_snoc)
  with run_hook_done inv nr x show ?thesis
    by (auto simp: run_inv_def handed_over_def all_servers split: main_phase.splits)
next
  case (run_second x e e' logs w')
  with inv have "trace_ok (rs_trace s @ [OutputsClosed])" "rs_world s = w"
    by (auto simp: run_inv_def intro!: trace_ok_snoc)
  with run_second inv show ?thesis
    by (cases x) (auto simp: run_inv_def handed_over_def closed_world_def all_servers)
next
  case (run_cancel x)
  with inv show ?thesis
    by (cases x) (auto simp: run_inv_def handed_over_def all_servers split: main_phase.splits)
next
  case run_signal
  with inv show ?thesis by (auto simp: run_inv_def split: main_phase.splits)
next
  case (run_listen x e)
  with inv show ?thesis
    by (cases x) (auto simp: run_inv_def handed_over_def all_servers split: main_phase.splits)
next
  case (run_stopped x e)
  with inv show ?thesis
    by (cases x) (auto simp: run_inv_def handed_over_def all_servers split: main_phase.splits)
next
  case (run_first x e)
  with inv show ?thesis by (cases x) (auto simp: run_inv_def handed_over_def all_servers)
qed


section \<open>run ends\<close>

fun phase_left :: "server_phase \<Rightarrow> nat" where
  "phase_left Serving = 5"
| "phase_left InHook = 4"
| "phase_left Stopping = 3"
| "phase_left (Sending e) = 2"
| "phase_left Sent = 1"
| "phase_left Exited = 0"

definition run_left :: "run_state \<Rightarrow> nat" where
  "run_left s = phase_left (rs_phase s AuditServer) + phase_left (rs_phase s MetricsServer)
     + (if rs_ctx s then 0 else 1)"

lemma run_left_upd:
  assumes "rs_phase s' = (rs_phase s)(x := p)" and "phase_left p < phase_left (rs_phase s x)" and "rs_ctx s' = rs_ctx s"
  shows "run_left s' < run_left s"
  using assms by (cases x) (simp_all add: run_left_def)

lemma run_left_step:
  assumes "run_step env l conf a s s'"
  shows "run_left s' < run_left s"
  using assms
proof (cases rule: run_step.cases)
  case run_signal
  then show ?thesis by (simp add: run_left_def)
next
  case (run_ctx_done x)
  then show ?thesis
    by (intro run_left_upd [of s' s x "after_ctx_done x"]) (simp_all add: after_ctx_done_def split: server_id.split)
qed (rule run_left_upd, simp, simp, simp)+

interpretation run: step_system "run_any env l conf" "run_inv env l conf w" run_left for env l conf w
  by unfold_locales (auto simp: run_any_def intro: run_inv_step run_left_step)

lemma run_reach_inv: "(run_any env l conf)\<^sup>*\<^sup>* (run_init w) s \<Longrightarrow> run_inv env l conf w s"
  using run_init_inv by (rule run.reach_inv [rotated])

lemma run_progress:
  assumes inv: "run_inv env l conf w s" and "rs_ctx s \<or> (\<exists>x. rs_phase s x \<noteq> Serving)"
    and "\<nexists>r. rs_main s = RunReturned r"
  shows "\<exists>s'. run_step env l conf ByCode s s'"
proof -
  have moves: "\<exists>s'. run_step env l conf ByCode s s'"
    if x: "rs_phase s x = InHook \<or> rs_phase s x = Stopping \<or> rs_phase s x = Sent
       \<or> (rs_phase s x = Serving \<and> (rs_ctx s \<or> rs_cancelled s x))" for x
    using x by (meson run_hook_done run_stopped run_cancel run_ctx_done)
  have second: "\<exists>s'. run_step env l conf ByCode s s'" if "rs_main s = Awaiting x e" "rs_phase s x = Sending e'" for x e e'
    using run_second [OF that] by (metis prod.exhaust)
  have first: "\<exists>s'. run_step env l conf ByCode s s'" if "rs_main s = Selecting" "rs_phase s x = Sending e" for x e
    using run_first [OF that] by blast
  show ?thesis
  proof (cases "rs_main s")
    case Selecting
    from assms(2) obtain x where x: "rs_ctx s \<or> rs_phase s x \<noteq> Serving" by blast
    have "\<not> handed_over (rs_phase s x)" using inv Selecting by (simp add: run_inv_def)
    with x moves [of x] first [OF Selecting, of x] show ?thesis
      by (cases "rs_phase s x") (auto simp: handed_over_def)
  next
    case (Awaiting x e)
    then have h: "\<not> handed_over (rs_phase s x)" "handed_over (rs_phase s (other x))"
      using inv by (simp_all add: run_inv_def)
    show ?thesis
    proof (cases "rs_phase s (other x) = Exited")
      case True
      then have "rs_cancelled s x" using inv by (force simp: run_inv_def)
      with h(1) moves [of x] second [OF Awaiting] show ?thesis
        by (cases "rs_phase s x") (auto simp: handed_over_def)
    next
      case False
      with h(2) moves [of "other x"] show ?thesis by (simp add: handed_over_def)
    qed
  qed (use assms(3) in blast)
qed

lemma run_code_keeps_awake:
  assumes "run_step env l conf a s s'" and "rs_ctx s \<or> (\<exists>x. rs_phase s x \<noteq> Serving)"
  shows "rs_ctx s' \<or> (\<exists>x. rs_phase s' x \<noteq> Serving)"
  using assms
proof (cases rule: run_step.cases)
  case (run_ctx_done x)
  then show ?thesis by (intro disjI2 exI [of _ x]) (cases x, simp_all add: after_ctx_done_def)
qed (auto intro: exI)

text \<open>The steps of the code alone, once the context is cancelled or a server has stopped.\<close>

definition run_awake :: "run_state \<Rightarrow> bool" where
  "run_awake s \<longleftrightarrow> rs_ctx s \<or> (\<exists>x. rs_phase s x \<noteq> Serving)"

interpretation run_code: progressing_system "run_step env l conf ByCode" "\<lambda>s. run_inv env l conf w s \<and> run_awake s"
    run_left "\<lambda>s. \<exists>r. rs_main s = RunReturned r" for env l conf w
proof (unfold run_awake_def, unfold_locales, goal_cases)
  case (1 s s')
  then show ?case using run_code_keeps_awake [OF 1(2)] run_inv_step [OF 1(2)] by simp
next
  case (2 s s')
  then show ?case by (simp add: run_left_step)
next
  case (3 s)
  then show ?case by (intro run_progress [of env l conf w]) simp_all
qed

lemma closed_world_used:
  "used_resources (closed_world env l conf w) =
     used_resources w - \<Union> (held_resources ` set (OutputsGuaranteed conf @ OutputsBestEffort conf))"
  using http.close_each_used [of env "OutputsGuaranteed conf @ OutputsBestEffort conf" w]
  by (auto simp: closed_world_def app_closeOutputs_def split: prod.splits)

section \<open>Properties\<close>

text \<open>
  Property C18. The command stops: every run of the two servers takes at most 11 steps, and once its
  context is cancelled or one server has stopped for any reason, the code by itself, with no further help
  from outside, brings the other server down and \<^verbatim>\<open>run\<close> returns; there is no deadlock between the two
  channels and the two cancel functions.
\<close>

theorem run_terminates:
  assumes "(run_any env l conf)\<^sup>*\<^sup>* (run_init w) s"
  shows "\<not> (\<exists>s'. (run_any env l conf ^^ 12) (run_init w) s')
    \<and> (rs_ctx s \<or> rs_phase s AuditServer \<noteq> Serving \<or> rs_phase s MetricsServer \<noteq> Serving \<longrightarrow>
         (\<exists>s' r. (run_step env l conf ByCode)\<^sup>*\<^sup>* s s' \<and> rs_main s' = RunReturned r))"
proof -
  have "run_left (run_init w) = 11" by (simp add: run_left_def run_init_def)
  then have "\<not> (\<exists>s'. (run_any env l conf ^^ 12) (run_init w) s')"
    by (intro run.no_long_run [OF run_init_inv]) simp
  moreover have "run_awake s" if "rs_ctx s \<or> rs_phase s AuditServer \<noteq> Serving \<or> rs_phase s MetricsServer \<noteq> Serving"
    using that by (auto simp: run_awake_def)
  ultimately show ?thesis using run_code.completes [of env l conf w s] run_reach_inv [OF assms] by blast
qed



section \<open>Start-up\<close>

lemma Complete_Some: "Complete env o0 = (None, o1) \<Longrightarrow> \<exists>cfg. opt_Config o1 = Some cfg"
  by (auto simp: Complete_def split: if_splits sum.splits prod.splits option.splits)

lemma RunE_E:
  obtains (failed) e where "RunE env opt w = Return (Inl e, w)"
  | (applied) o1 e conf w' where "Complete env opt = (None, o1)" and "Validate env o1 = Return None"
      and "ApplyTo env o1 (Logger [] []) empty_AppConfig w = Return (e, conf, w')"
      and "\<exists>h e'. RunE env opt w = Return (case e of None \<Rightarrow> Inr (conf, h) | Some _ \<Rightarrow> Inl e', w')"
proof -
  obtain ce o1 where c: "Complete env opt = (ce, o1)" by fastforce
  show ?thesis
  proof (cases ce)
    case (Some e)
    with c show ?thesis by (intro failed) (simp add: RunE_def)
  next
    case None
    with c obtain cfg where cfg: "opt_Config o1 = Some cfg" using Complete_Some by blast
    then have "\<exists>ve. Validate env o1 = Return ve" by (simp add: Validate_def Let_def)
    then obtain ve where v: "Validate env o1 = Return ve" by blast
    show ?thesis
    proof (cases ve)
      case (Some e)
      with c None v show ?thesis by (intro failed) (simp add: RunE_def)
    next
      case vnone: None
      from ApplyTo_returns [OF cfg] obtain e conf w' where
        a: "ApplyTo env o1 (Logger [] []) empty_AppConfig w = Return (e, conf, w')" by blast
      have "\<exists>h e'. RunE env opt w = Return (case e of None \<Rightarrow> Inr (conf, h) | Some _ \<Rightarrow> Inl e', w')"
        using c None v vnone cfg a
        by (auto simp: RunE_def Options_LogConfig_def FromSlogHandler_def Let_def split: option.splits)
      with c None v vnone a applied show ?thesis by blast
    qed
  qed
qed

text \<open>
  Property C20. Start-up is safe: for any command line and any configuration file the command never
  dereferences a nil configuration; if it fails before serving, it has released every resource; if it
  gets to \<^verbatim>\<open>run\<close>, creating the handler cannot fail, the handler has exactly one guaranteed output, and the
  deferred \<^verbatim>\<open>closeOutputs\<close> releases everything start-up acquired.
\<close>

theorem RunE_safe:
  assumes "decoder_defaults (ae_decodeInto env)" and "fs_wf w"
  shows "\<exists>r w'. RunE env opt w = Return (r, w')
    \<and> (case r of
         Inl e \<Rightarrow> used_resources w' = used_resources w
       | Inr (conf, h) \<Rightarrow>
           (\<exists>hd. run_handler c order (FromSlogHandler h) conf = Inr hd \<and> length (guaranteedOutputs hd) = 1)
         \<and> used_resources (closed_world (ae_sys env) (FromSlogHandler h) conf w') = used_resources w)"
proof (cases rule: RunE_E [of env opt w])
  case (failed e)
  then show ?thesis by simp
next
  case (applied o1 e conf w')
  note u = ApplyTo_resources [OF applied(3) assms(2)]
  show ?thesis
  proof (cases e)
    case (Some e1)
    with u applied(4) show ?thesis by auto
  next
    case None
    obtain out where "OutputsGuaranteed conf = [out]"
      using ApplyTo_outputs_built [OF assms(1) applied(1,2) applied(3) [unfolded None]] by blast
    then have "\<exists>hd. run_handler c order l conf = Inr hd \<and> length (guaranteedOutputs hd) = 1" for l
      by (simp add: run_handler_def NewHandler_def output_refs_def)
    moreover have "used_resources (closed_world (ae_sys env) l conf w') = used_resources w" for l
      using u None unfolding closed_world_used by (simp add: Un_Diff Diff_triv)
    ultimately show ?thesis using applied(4) None by auto
  qed
qed

theorem RunE_safe_witness:
  "\<exists>r w'. RunE sample_app_env (NewOptions\<lparr>ConfigFile := ''/config.yaml''\<rparr>) empty_world = Return (r, w')"
proof -
  have "fs_wf empty_world" by (simp add: fs_wf_def empty_world_def)
  from RunE_safe [OF sample_decoder this, where c = sample_codec and order = "\<lambda>_ m. m"] show ?thesis by blast
qed

section \<open>A concrete run\<close>

text \<open>A signal arrives; both servers are shut down.\<close>

lemma sample_run_signal:
  "run_any sample_env Discard empty_AppConfig (run_init empty_world) ((run_init empty_world)\<lparr>rs_ctx := True\<rparr>)"
  unfolding run_any_def by (rule exI [of _ ByWorld]) (rule run_signal, simp add: run_init_def)

theorem run_terminates_witness:
  "\<exists>s' r. (run_step sample_env Discard empty_AppConfig ByCode)\<^sup>*\<^sup>* ((run_init empty_world)\<lparr>rs_ctx := True\<rparr>) s'
     \<and> rs_main s' = RunReturned r"
  using run_terminates [OF r_into_rtranclp [of "run_any sample_env Discard empty_AppConfig", OF sample_run_signal]]
  by simp


end
