(* ===== verification/RunServer.thy ===== *)
theory RunServer
  imports App
begin

text \<open>
  The servers of \<^verbatim>\<open>run\<close> and the function \<^verbatim>\<open>runServer\<close> in detail
  (\<^verbatim>\<open>src/cmd/auditlog-forwarder/app/app.go\<close>), and the exit status of the process
  (\<^verbatim>\<open>src/cmd/auditlog-forwarder/main.go\<close>).

  \<^verbatim>\<open>runServer\<close> has a goroutine of its own that listens and reports a failure over an unbuffered channel,
  while the function waits for that channel or for its context. The step relation \<open>server_step\<close> has one
  rule for each thing either of them does, and the theory shows that it refines the coarser view of a
  server in \<open>run_step\<close>. Sockets, TLS handshakes and the HTTP protocol are the environment.
\<close>

section \<open>The two servers\<close>

record http_server =
  srv_Addr :: string
  srv_pattern :: string
  srv_TLSConfig :: "tls_config option"
  srv_ReadTimeout :: duration
  srv_WriteTimeout :: duration

definition srvAudit :: "AppConfig \<Rightarrow> http_server" where
  "srvAudit conf =
     \<lparr>srv_Addr = ServingAddress (cfg_Serving conf), srv_pattern = ''POST /audit'',
      srv_TLSConfig = TLSConfig (cfg_Serving conf),
      srv_ReadTimeout = 15 * Second, srv_WriteTimeout = 15 * Second\<rparr>"

definition srvMetrics :: "AppConfig \<Rightarrow> http_server" where
  "srvMetrics conf =
     \<lparr>srv_Addr = MetricsAddress (cfg_Serving conf), srv_pattern = ''GET /metrics'', srv_TLSConfig = None,
      srv_ReadTimeout = 15 * Second, srv_WriteTimeout = 15 * Second\<rparr>"

text \<open>A request to the audit server: the mux calls the handler or answers itself.\<close>

definition audit_server_serve ::
    "AppConfig \<Rightarrow> ('o, 'w) output_ops \<Rightarrow> string \<Rightarrow> 'o fan_schedule \<Rightarrow> mux_request \<Rightarrow> http_request \<Rightarrow>
     response_writer \<Rightarrow> ('o, 'w) handler_state \<Rightarrow> response_writer option \<times> ('o, 'w) handler_state" where
  "audit_server_serve conf ops req_id sched mr r w st =
     (case mux_route (srv_pattern (srvAudit conf)) mr of
        MuxDispatch \<Rightarrow> (let (w, st) = ServeHTTP ops req_id sched r w st in (Some w, st))
      | route \<Rightarrow> (mux_reply route w, st))"

text \<open>
  The hook the audit server runs before it stops, given what the handler's \<^verbatim>\<open>Shutdown\<close> with 30 seconds
  returned: it logs that and never fails.
\<close>

definition audit_hook :: "logger \<Rightarrow> err \<Rightarrow> err \<times> log_entry list" where
  "audit_hook l e =
     (None,
      case e of
        Some e \<Rightarrow> [LogError l e ''Handler shutdown completed with timeout'' []]
      | None \<Rightarrow> [LogInfo l ''Handler shutdown completed successfully'' []])"

text \<open>The arguments of the two calls of \<^verbatim>\<open>runServer\<close>.\<close>

record server_args =
  sa_name :: string
  sa_serveTLS :: bool
  sa_srv :: http_server
  sa_hook :: "(logger \<Rightarrow> err \<Rightarrow> err \<times> log_entry list) option"

definition server_call :: "AppConfig \<Rightarrow> server_id \<Rightarrow> server_args" where
  "server_call conf x =
     (case x of
        AuditServer \<Rightarrow>
          \<lparr>sa_name = ''audit-server'', sa_serveTLS = True, sa_srv = srvAudit conf, sa_hook = Some audit_hook\<rparr>
      | MetricsServer \<Rightarrow>
          \<lparr>sa_name = ''metrics-server'', sa_serveTLS = False, sa_srv = srvMetrics conf, sa_hook = None\<rparr>)"

section \<open>runServer\<close>

text \<open>How the listener was started: over TLS with the server's configuration, or in plain text.\<close>

datatype listen_mode = ListenTLS string "tls_config option" | ListenPlain string

definition serveFunc :: "server_args \<Rightarrow> listen_mode" where
  "serveFunc a =
     (if \<not> sa_serveTLS a then ListenPlain (srv_Addr (sa_srv a))
      else ListenTLS (srv_Addr (sa_srv a)) (srv_TLSConfig (sa_srv a)))"

datatype listener = LStarting | LListening | LSendErr go_error | LExited

datatype serve_main = SSelect | SHook | SShutdown | SReturned err

text \<open>\<open>sr_served\<close> records what the listener returned, \<open>sr_inShutdown\<close> that \<^verbatim>\<open>srv.Shutdown\<close> was called.\<close>

record server_run =
  sr_listener :: listener
  sr_mode :: "listen_mode option"
  sr_served :: "err option"
  sr_main :: serve_main
  sr_ctx :: bool
  sr_inShutdown :: bool
  sr_log :: "log_entry list"

definition server_init :: server_run where
  "server_init = \<lparr>sr_listener = LStarting, sr_mode = None, sr_served = None, sr_main = SSelect, sr_ctx = False,
     sr_inShutdown = False, sr_log = []\<rparr>"

text \<open>
  The context may be cancelled and a listener may fail at any time; both are steps of the world. Once
  \<^verbatim>\<open>srv.Shutdown\<close> was called the listener returns \<^verbatim>\<open>ErrServerClosed\<close> by itself.
\<close>

inductive server_step :: "server_args \<Rightarrow> logger \<Rightarrow> actor \<Rightarrow> server_run \<Rightarrow> server_run \<Rightarrow> bool" for a l where
  sv_ctx: "\<not> sr_ctx s \<Longrightarrow> server_step a l ByWorld s (s\<lparr>sr_ctx := True\<rparr>)"
| sv_listen: "sr_listener s = LStarting \<Longrightarrow>
    server_step a l ByCode s (s\<lparr>sr_listener := LListening, sr_mode := Some (serveFunc a),
      sr_log := sr_log s @ [LogInfo l ''Starts server listening'' [(''address'', srv_Addr (sa_srv a))]]\<rparr>)"
| sv_failed: "sr_listener s = LListening \<Longrightarrow> listen_result e = Some e' \<Longrightarrow> \<not> sr_inShutdown s \<Longrightarrow>
    server_step a l ByWorld s (s\<lparr>sr_served := Some e, sr_listener := LSendErr e'\<rparr>)"
| sv_stopped: "sr_listener s = LListening \<Longrightarrow> listen_result e = None \<Longrightarrow>
    act = (if sr_inShutdown s then ByCode else ByWorld) \<Longrightarrow>
    server_step a l act s (s\<lparr>sr_served := Some e, sr_listener := LExited,
      sr_log := sr_log s @ [LogInfo l ''Server stopped listening'' []]\<rparr>)"
| sv_recv_err: "sr_main s = SSelect \<Longrightarrow> sr_listener s = LSendErr e \<Longrightarrow>
    server_step a l ByCode s (s\<lparr>sr_main := SReturned (Some e), sr_listener := LExited\<rparr>)"
| sv_recv_closed: "sr_main s = SSelect \<Longrightarrow> sr_listener s = LExited \<Longrightarrow>
    server_step a l ByCode s (s\<lparr>sr_main := SReturned None\<rparr>)"
| sv_ctx_done: "sr_main s = SSelect \<Longrightarrow> sr_ctx s \<Longrightarrow>
    server_step a l ByCode s (s\<lparr>sr_main := (if sa_hook a \<noteq> None then SHook else SShutdown),
      sr_inShutdown := (sa_hook a = None), sr_log := sr_log s @ [LogInfo l ''Shutting down'' []]\<rparr>)"
| sv_hook: "sr_main s = SHook \<Longrightarrow> sa_hook a = Some hook \<Longrightarrow> hook l e = (he, logs) \<Longrightarrow>
    server_step a l ByCode s (s\<lparr>sr_main := SShutdown, sr_inShutdown := True,
      sr_log := sr_log s @ logs @ (case he of None \<Rightarrow> [] | Some e \<Rightarrow> [LogError l e ''Pre-shutdown hook failed'' []])\<rparr>)"
| sv_shutdown: "sr_main s = SShutdown \<Longrightarrow>
    server_step a l ByCode s (s\<lparr>sr_main := SReturned (shutdown_result e),
      sr_log := sr_log s @ (if e = None then [LogInfo l ''Shutdown successful'' []] else [])\<rparr>)"

inductive_cases server_stepE: "server_step a l act s s'"

definition server_any :: "server_args \<Rightarrow> logger \<Rightarrow> server_run \<Rightarrow> server_run \<Rightarrow> bool" where
  "server_any a l s s' \<longleftrightarrow> (\<exists>act. server_step a l act s s')"

section \<open>main\<close>

text \<open>The exit status of the process, from the error the command returned.\<close>

definition main_exit :: "err \<Rightarrow> int" where
  "main_exit e = (if e \<noteq> None then 1 else 0)"

lemma main_exit_zero_iff: "main_exit (errors_Join [r1, r2]) = 0 \<longleftrightarrow> r1 = None \<and> r2 = None"
  by (auto simp: main_exit_def errors_Join_None_iff)

section \<open>Routing\<close>

lemma audit_pattern:
  "pattern_segments ''POST /audit'' = [''audit'']" "method_matches ''POST /audit'' m \<longleftrightarrow> m = ''POST''"
  by (simp_all add: pattern_segments_def method_matches_def pattern_method_def)

lemma http_Error_status:
  assumes "rw_wire w = None"
  shows "answered code (http_Error w msg code)"
  using assms
  by (simp add: http_Error_def header_Set_def header_Del_def WriteHeader_def Write_def answered_def Let_def
      split: option.split)

lemma mux_reply_status:
  assumes "rw_wire w = None" and "mux_reply route w = Some w1"
  shows "\<exists>code\<in>{400, 404, 405}. answered code w1"
proof (cases route)
  case (MuxMethodNotAllowed ms)
  with assms http_Error_status [of "header_Set ''Allow'' (join_with '', '' ms) w" 405 "''Method Not Allowed''"]
  show ?thesis by (auto simp: header_Set_def)
next
  case MuxNotFound
  with assms http_Error_status [of w 404] show ?thesis by (auto simp: http_NotFound_def)
next
  case MuxBadRequest
  with assms show ?thesis by (auto simp: answered_def WriteHeader_def header_Set_def)
qed (use assms in simp_all)

lemma audit_route_dispatch:
  "mux_route (srv_pattern (srvAudit conf)) mr = MuxDispatch \<longleftrightarrow> mr_RequestURI mr \<noteq> ''*'' \<and> mr_Method mr = ''POST''
      \<and> (\<exists>s. mr_EscapedPath mr = CHR ''/'' # s \<and> CHR ''/'' \<notin> set s \<and> pathUnescape s = ''audit'')"
  by (subst mux_route_dispatch [where seg = "''audit''"]) (simp_all add: srvAudit_def audit_pattern)

lemma audit_server_accepted:
  assumes "audit_server_serve conf ops req_id sched mr r w st = (Some w', st')" and "fresh_writer w" and "answered 200 w'"
  shows "mux_route (srv_pattern (srvAudit conf)) mr = MuxDispatch \<and> ServeHTTP ops req_id sched r w st = (w', st')"
proof (cases "mux_route (srv_pattern (srvAudit conf)) mr = MuxDispatch")
  case True
  with assms(1) show ?thesis by (auto simp: audit_server_serve_def split: prod.splits)
next
  case False
  with assms(1) have "mux_reply (mux_route (srv_pattern (srvAudit conf)) mr) w = Some w'"
    by (auto simp: audit_server_serve_def split: mux_result.splits)
  from mux_reply_status [OF _ this] assms(2,3) show ?thesis by (auto simp: fresh_writer_def answered_def)
qed


section \<open>Invariant of runServer\<close>

definition server_inv :: "server_args \<Rightarrow> server_run \<Rightarrow> bool" where
  "server_inv a s \<longleftrightarrow>
     sr_mode s = (if sr_listener s = LStarting then None else Some (serveFunc a))
   \<and> (case sr_listener s of
        LSendErr e \<Rightarrow> map_option listen_result (sr_served s) = Some (Some e)
      | LExited \<Rightarrow> sr_served s \<noteq> None \<and> (sr_main s = SSelect \<longrightarrow> map_option listen_result (sr_served s) = Some None)
      | _ \<Rightarrow> sr_served s = None)
   \<and> (case sr_main s of
        SSelect \<Rightarrow> True
      | SHook \<Rightarrow> sa_hook a \<noteq> None \<and> sr_ctx s
      | SShutdown \<Rightarrow> sr_ctx s
      | SReturned r \<Rightarrow> map_option listen_result (sr_served s) = Some r \<or> (sr_ctx s \<and> (\<exists>e. r = shutdown_result e)))"

lemma server_init_inv: "server_inv a server_init"
  by (simp add: server_inv_def server_init_def)

lemma server_inv_step:
  assumes "server_step a l act s s'" and "server_inv a s"
  shows "server_inv a s'"
  using assms(1)
proof cases
  case sv_ctx
  with assms(2) show ?thesis by (auto simp: server_inv_def split: listener.splits serve_main.splits)
next
  case sv_listen
  with assms(2) show ?thesis by (auto simp: server_inv_def split: serve_main.splits)
next
  case (sv_failed e e')
  with assms(2) show ?thesis by (auto simp: server_inv_def split: serve_main.splits)
next
  case (sv_stopped e)
  with assms(2) show ?thesis by (auto simp: server_inv_def split: serve_main.splits)
next
  case (sv_recv_err e)
  with assms(2) show ?thesis by (auto simp: server_inv_def)
next
  case sv_recv_closed
  with assms(2) show ?thesis by (auto simp: server_inv_def)
next
  case sv_ctx_done
  with assms(2) show ?thesis by (simp add: server_inv_def split: listener.splits)
next
  case (sv_hook hook e he logs)
  with assms(2) show ?thesis by (simp add: server_inv_def split: listener.splits)
next
  case (sv_shutdown e)
  with assms(2) show ?thesis by (auto simp: server_inv_def split: listener.splits)
qed

fun listener_left :: "listener \<Rightarrow> nat" where
  "listener_left LStarting = 2"
| "listener_left LListening = 1"
| "listener_left _ = 0"

fun main_steps_left :: "serve_main \<Rightarrow> nat" where
  "main_steps_left SSelect = 3"
| "main_steps_left SHook = 2"
| "main_steps_left SShutdown = 1"
| "main_steps_left (SReturned r) = 0"

definition server_left :: "server_run \<Rightarrow> nat" where
  "server_left s = listener_left (sr_listener s) + main_steps_left (sr_main s) + (if sr_ctx s then 0 else 1)"

lemma server_left_step: "server_step a l act s s' \<Longrightarrow> server_left s' < server_left s"
  by (cases rule: server_stepE) (auto simp: server_left_def)

interpretation serving: step_system "server_any a l" "server_inv a" server_left for a l
  by unfold_locales (auto simp: server_any_def intro: server_inv_step server_left_step)

lemma server_reach_inv: "(server_any a l)\<^sup>*\<^sup>* server_init s \<Longrightarrow> server_inv a s"
  using server_init_inv by (rule serving.reach_inv [rotated])

text \<open>
  What \<^verbatim>\<open>runServer\<close> returns: the failure of its listener (nothing if the listener was closed), or,
  only if its context was cancelled, the failure of the graceful shutdown. The audit server listens over TLS
  with the configured certificate and client authentication and never in plain text; the metrics server
  listens in plain text.
\<close>

lemma runServer_outcome:
  assumes "(server_any (server_call conf x) l)\<^sup>*\<^sup>* server_init s"
  shows "(\<forall>r. sr_main s = SReturned r \<longrightarrow>
      (\<exists>e. sr_served s = Some e \<and> r = listen_result e) \<or> (sr_ctx s \<and> (\<exists>e. r = shutdown_result e)))
    \<and> (\<forall>m. sr_mode s = Some m \<longrightarrow>
      m = (case x of AuditServer \<Rightarrow> ListenTLS (ServingAddress (cfg_Serving conf)) (TLSConfig (cfg_Serving conf))
           | MetricsServer \<Rightarrow> ListenPlain (MetricsAddress (cfg_Serving conf))))"
  using server_reach_inv [OF assms]
  by (auto simp: server_inv_def serveFunc_def server_call_def srvAudit_def srvMetrics_def
      split: server_id.splits if_splits)

section \<open>runServer returns\<close>

text \<open>What makes \<^verbatim>\<open>runServer\<close> return by itself: a cancelled context or a listener that has stopped.\<close>

definition server_awake :: "server_run \<Rightarrow> bool" where
  "server_awake s \<longleftrightarrow> sr_ctx s \<or> sr_served s \<noteq> None"

lemma server_awake_step: "server_step a l act s s' \<Longrightarrow> server_awake s \<Longrightarrow> server_awake s'"
  by (cases rule: server_stepE) (auto simp: server_awake_def)

lemma server_progress:
  assumes "server_inv a s" and "server_awake s" and "\<nexists>r. sr_main s = SReturned r"
  shows "\<exists>s'. server_step a l ByCode s s'"
proof (cases "sr_main s")
  case SSelect
  show ?thesis
  proof (cases "sr_ctx s")
    case True
    with SSelect show ?thesis by (blast intro: sv_ctx_done)
  next
    case False
    with assms(1,2) have "sr_listener s = LExited \<or> (\<exists>e. sr_listener s = LSendErr e)"
      by (cases "sr_listener s") (auto simp: server_inv_def server_awake_def)
    with SSelect show ?thesis by (blast intro: sv_recv_err sv_recv_closed)
  qed
next
  case SHook
  with assms(1) obtain hook where "sa_hook a = Some hook" by (auto simp: server_inv_def)
  with SHook sv_hook [of s a hook l None] show ?thesis by (metis prod.exhaust)
next
  case SShutdown
  then show ?thesis by (blast intro: sv_shutdown)
qed (use assms(3) in blast)

interpretation serving_code: progressing_system "server_step a l ByCode" "\<lambda>s. server_inv a s \<and> server_awake s"
    server_left "\<lambda>s. \<exists>r. sr_main s = SReturned r" for a l
  by unfold_locales (auto intro: server_inv_step server_awake_step server_left_step server_progress)

text \<open>
  \<^verbatim>\<open>runServer\<close> ends: no run of it and its listener has more than six steps, and once its context is
  cancelled or its listener has stopped, the code brings it to its return without help from outside.
\<close>

lemma runServer_returns:
  assumes "(server_any (server_call conf x) l)\<^sup>*\<^sup>* server_init s"
  shows "\<not> (\<exists>s'. (server_any (server_call conf x) l ^^ 7) server_init s')
    \<and> (sr_ctx s \<or> sr_served s \<noteq> None \<longrightarrow>
         (\<exists>s' r. (server_step (server_call conf x) l ByCode)\<^sup>*\<^sup>* s s' \<and> sr_main s' = SReturned r))"
proof -
  have "\<not> (\<exists>s'. (server_any (server_call conf x) l ^^ 7) server_init s')"
    by (rule serving.no_long_run [OF server_init_inv]) (simp add: server_left_def server_init_def)
  with serving_code.completes [of "server_call conf x" s l] server_reach_inv [OF assms] show ?thesis
    by (auto simp: server_awake_def)
qed

section \<open>runServer refines the servers of run\<close>

text \<open>What \<open>run_step\<close> sees of a server.\<close>

fun abs_phase :: "serve_main \<Rightarrow> server_phase" where
  "abs_phase SSelect = Serving"
| "abs_phase SHook = InHook"
| "abs_phase SShutdown = Stopping"
| "abs_phase (SReturned r) = Sending r"

text \<open>
  Property C22. \<^verbatim>\<open>runServer\<close> with its listener refines a server as \<open>run_step\<close> has it: seen through \<open>abs_phase\<close>, each of
  its steps leaves the phase of the server as it is or is a step of \<open>run_step\<close> for that server, as long as
  the context it looks at is the one of \<open>run\<close>. So the termination and the order of shutting down shown for
  \<open>run_step\<close> hold for the two goroutines of each server as well.
\<close>

theorem runServer_refines:
  assumes "(server_any (server_call conf x) l)\<^sup>*\<^sup>* server_init sv" and "server_step (server_call conf x) l act sv sv'"
    and "rs_phase s x = abs_phase (sr_main sv)" and "sr_ctx sv \<longrightarrow> rs_ctx s \<or> rs_cancelled s x"
  shows "sr_main sv' = sr_main sv
    \<or> (\<exists>a tr. run_step env lg conf a s
          (s\<lparr>rs_phase := (rs_phase s)(x := abs_phase (sr_main sv')), rs_trace := tr\<rparr>))"
proof -
  have inv: "server_inv (server_call conf x) sv" using assms(1) by (rule server_reach_inv)
  have listen: "\<exists>a tr. run_step env lg conf a s (s\<lparr>rs_phase := (rs_phase s)(x := Sending r), rs_trace := tr\<rparr>)"
    if "rs_phase s x = Serving" "map_option listen_result (sr_served sv) = Some r" for r
    using that run_listen [of s x env lg conf "the (sr_served sv)"] by (intro exI [of _ ByWorld] exI [of _ "rs_trace s"]) auto
  show ?thesis
    using assms(2)
  proof cases
    case (sv_recv_err e)
    with assms(3) inv listen [of "Some e"] show ?thesis by (simp add: server_inv_def)
  next
    case sv_recv_closed
    with assms(3) inv listen [of None] show ?thesis by (simp add: server_inv_def)
  next
    case sv_ctx_done
    with assms(3,4) run_ctx_done [of s x env lg conf] show ?thesis
      by (cases x) (auto simp: server_call_def after_ctx_done_def)
  next
    case (sv_hook hook e he logs)
    with assms(3) run_hook_done [of s x env lg conf] show ?thesis by auto
  next
    case (sv_shutdown e)
    with assms(3) run_stopped [of s x env lg conf e] show ?thesis
      by (intro disjI2 exI [of _ ByCode] exI [of _ "rs_trace s"]) simp
  qed simp_all
qed

section \<open>A failure of the listener can be lost\<close>

lemma blocked_listener_step:
  assumes "server_step a l act s s'" and "sr_main s = SReturned r" and "sr_listener s = LSendErr e"
  shows "sr_main s' = SReturned r \<and> sr_listener s' = LSendErr e"
  using assms by (cases rule: server_stepE) auto

lemma blocked_listener_stays:
  assumes "(server_any a l)\<^sup>*\<^sup>* s s'" and "sr_main s = SReturned r" and "sr_listener s = LSendErr e"
  shows "sr_main s' = SReturned r \<and> sr_listener s' = LSendErr e"
  using assms(1) by (induction rule: rtranclp_induct) (use assms(2,3) in \<open>auto simp: server_any_def dest: blocked_listener_step\<close>)

lemmas server_anyI = exI [where P = "\<lambda>act. server_step a l act s s'", folded server_any_def] for a l s s'

lemma server_reach_shutdown:
  assumes "(server_any (server_call conf x) l)\<^sup>*\<^sup>* server_init s" and "sr_main s = SSelect" and "sr_ctx s"
  shows "\<exists>s'. (server_any (server_call conf x) l)\<^sup>*\<^sup>* server_init s' \<and> sr_main s' = SShutdown
    \<and> sr_listener s' = sr_listener s \<and> sr_served s' = sr_served s"
proof -
  let ?a = "server_call conf x"
  obtain s1 where s1: "server_any ?a l s s1" "sr_main s1 = (if sa_hook ?a \<noteq> None then SHook else SShutdown)"
    "sr_listener s1 = sr_listener s" "sr_served s1 = sr_served s"
    using server_anyI [OF sv_ctx_done [OF assms(2,3), of ?a l]] by fastforce
  have r1: "(server_any ?a l)\<^sup>*\<^sup>* server_init s1" using assms(1) s1(1) by simp
  show ?thesis
  proof (cases "sa_hook ?a")
    case None
    with r1 s1 show ?thesis by auto
  next
    case (Some hook)
    then have "sr_main s1 = SHook" using s1(2) by simp
    with Some obtain s2 where "server_any ?a l s1 s2" "sr_main s2 = SShutdown" "sr_listener s2 = sr_listener s1"
      "sr_served s2 = sr_served s1"
      using server_anyI [OF sv_hook [of s1 ?a hook l None "fst (hook l None)" "snd (hook l None)"]] by fastforce
    with r1 s1 show ?thesis by (metis rtranclp.rtrancl_into_rtrancl)
  qed
qed

lemma server_reach_returned:
  assumes "(server_any (server_call conf x) l)\<^sup>*\<^sup>* server_init s" and "sr_main s = SSelect" and "sr_ctx s"
  shows "\<exists>s'. (server_any (server_call conf x) l)\<^sup>*\<^sup>* server_init s' \<and> sr_main s' = SReturned None
    \<and> sr_listener s' = sr_listener s \<and> sr_served s' = sr_served s"
proof -
  let ?R = "server_any (server_call conf x) l"
  from server_reach_shutdown [OF assms] obtain s1 where s1: "?R\<^sup>*\<^sup>* server_init s1" "sr_main s1 = SShutdown"
    "sr_listener s1 = sr_listener s" "sr_served s1 = sr_served s" by blast
  let ?s2 = "s1\<lparr>sr_main := SReturned None, sr_log := sr_log s1 @ [LogInfo l ''Shutdown successful'' []]\<rparr>"
  have "?R s1 ?s2"
    using server_anyI [OF sv_shutdown [OF s1(2), of "server_call conf x" l None]] by (simp add: shutdown_result_def)
  with s1(1) have "?R\<^sup>*\<^sup>* server_init ?s2" by simp
  with s1(3,4) show ?thesis by (intro exI [of _ ?s2]) simp
qed

text \<open>
  Property C39. A failure of the listener can be lost: if the context is cancelled at about the time the listener
  fails, the \<^verbatim>\<open>select\<close> may take the context's case. Then \<^verbatim>\<open>runServer\<close> returns nil (if the
  other server also does, the process exits with status 0), and the goroutine that listens is blocked for ever
  on the unbuffered channel nobody reads any more.
\<close>

theorem listener_failure_lost:
  assumes "listen_result (Some e) = Some e'"
  shows "\<exists>s. (server_any (server_call conf x) l)\<^sup>*\<^sup>* server_init s \<and> sr_served s = Some (Some e)
    \<and> (\<forall>s'. (server_any (server_call conf x) l)\<^sup>*\<^sup>* s s' \<longrightarrow>
         (\<exists>r. sr_main s' = SReturned r \<and> main_exit (errors_Join [r, None]) = 0) \<and> sr_listener s' = LSendErr e')"
proof -
  let ?R = "server_any (server_call conf x) l"
  let ?s1 = "server_init\<lparr>sr_listener := LListening, sr_mode := Some (serveFunc (server_call conf x)),
      sr_log := [LogInfo l ''Starts server listening'' [(''address'', srv_Addr (sa_srv (server_call conf x)))]]\<rparr>"
  let ?s2 = "?s1\<lparr>sr_served := Some (Some e), sr_listener := LSendErr e'\<rparr>"
  have "?R server_init ?s1" using server_anyI [OF sv_listen [of server_init "server_call conf x" l]]
    by (simp add: server_init_def)
  moreover have "?R ?s1 ?s2"
    using server_anyI [OF sv_failed [of ?s1 "Some e" e' "server_call conf x" l]] assms by (simp add: server_init_def)
  moreover have "?R ?s2 (?s2\<lparr>sr_ctx := True\<rparr>)"
    using server_anyI [OF sv_ctx [of ?s2 "server_call conf x" l]] by (simp add: server_init_def)
  ultimately have "?R\<^sup>*\<^sup>* server_init (?s2\<lparr>sr_ctx := True\<rparr>)"
    by (blast intro: converse_rtranclp_into_rtranclp)
  from server_reach_returned [OF this] obtain s3 where s3: "?R\<^sup>*\<^sup>* server_init s3" "sr_main s3 = SReturned None"
    "sr_listener s3 = LSendErr e'" "sr_served s3 = Some (Some e)"
    by (auto simp: server_init_def)
  with blocked_listener_stays [OF _ s3(2,3)] main_exit_zero_iff [of None None] show ?thesis by auto
qed

section \<open>Concrete instances\<close>

lemma sample_cancelled:
  "(server_any (server_call conf x) l)\<^sup>*\<^sup>* server_init (server_init\<lparr>sr_ctx := True\<rparr>)"
  using server_anyI [OF sv_ctx [of server_init "server_call conf x" l]] by (auto simp: server_init_def)

theorem runServer_returns_witness:
  "\<exists>s' r. (server_step (server_call empty_AppConfig MetricsServer) Discard ByCode)\<^sup>*\<^sup>* (server_init\<lparr>sr_ctx := True\<rparr>) s'
    \<and> sr_main s' = SReturned r"
  using runServer_returns [OF sample_cancelled [of empty_AppConfig MetricsServer Discard]] by simp

theorem listener_failure_lost_witness:
  "\<exists>s r. (server_any (server_call empty_AppConfig AuditServer) Discard)\<^sup>*\<^sup>* server_init s
    \<and> sr_served s = Some (Some (Errors_New ''address in use''))
    \<and> sr_main s = SReturned r \<and> main_exit (errors_Join [r, None]) = 0"
proof -
  have "listen_result (Some (Errors_New ''address in use''))
      = Some (wrapf ''failed serving content: '' (Errors_New ''address in use''))"
    by (simp add: listen_result_def ErrServerClosed_def)
  from listener_failure_lost [OF this] show ?thesis by blast
qed

theorem runServer_outcome_witness:
  "\<exists>s. (server_any (server_call empty_AppConfig MetricsServer) Discard)\<^sup>*\<^sup>* server_init s \<and> sr_main s = SReturned None
    \<and> ((\<exists>e. sr_served s = Some e \<and> None = listen_result e) \<or> (sr_ctx s \<and> (\<exists>e. None = shutdown_result e)))"
proof -
  obtain s where "(server_any (server_call empty_AppConfig MetricsServer) Discard)\<^sup>*\<^sup>* server_init s"
    "sr_main s = SReturned None"
    using server_reach_returned [OF sample_cancelled [of empty_AppConfig MetricsServer Discard]] by (auto simp: server_init_def)
  with runServer_outcome [of empty_AppConfig MetricsServer Discard s] show ?thesis by blast
qed

theorem runServer_refines_witness:
  "\<exists>a tr. run_step sample_env Discard empty_AppConfig a ((run_init empty_world)\<lparr>rs_ctx := True\<rparr>)
     ((run_init empty_world)\<lparr>rs_ctx := True, rs_phase := (\<lambda>_. Serving)(MetricsServer := Stopping), rs_trace := tr\<rparr>)"
proof -
  let ?a = "server_call empty_AppConfig MetricsServer" and ?sv = "server_init\<lparr>sr_ctx := True\<rparr>"
  have step: "server_step ?a Discard ByCode ?sv (?sv\<lparr>sr_main := SShutdown, sr_inShutdown := True,
      sr_log := [LogInfo Discard ''Shutting down'' []]\<rparr>)"
    using sv_ctx_done [of ?sv ?a Discard] by (simp add: server_init_def server_call_def)
  show ?thesis
    using runServer_refines [OF sample_cancelled step, of "(run_init empty_world)\<lparr>rs_ctx := True\<rparr>" sample_env Discard]
    by (simp add: server_init_def run_init_def)
qed


end
