(* ===== verification/Shutdown.thy ===== *)
theory Shutdown
  imports Handler
begin

text \<open>
  The life of a handler while requests arrive, best-effort goroutines finish and \<^verbatim>\<open>Shutdown\<close>
  (\<^verbatim>\<open>src/internal/handler/audit/handler.go\<close>) runs, as a step relation.

  A step serves a request, lets one best-effort goroutine finish, lets time pass, or is one of the
  steps of \<^verbatim>\<open>Shutdown\<close>: the call, the waiter goroutine that sees the wait group at zero and closes
  \<^verbatim>\<open>done\<close>, and the return by either case of the \<^verbatim>\<open>select\<close>. A best-effort goroutine takes effect when it
  finishes, with the shutdown context as it is then: a context cancelled earlier is what its sends saw.
  The call notes the instant and the number of the next goroutine, so that the goroutines running at
  that moment can be told from later ones. The wait group is a counter here; the theory \<open>WaitGroup\<close> says what is lost by
  that, namely a panic of Go's implementation when a request comes in the instant the waiter is released.
\<close>

section \<open>State and steps\<close>

record shutdown_call =
  sc_start :: int
  sc_timeout :: duration
  sc_mark :: nat

datatype shutdown_phase =
    NotCalled
  | Waiting shutdown_call bool
  | Returned shutdown_call err

record ('o, 'w) life =
  lf_state :: "('o, 'w) handler_state"
  lf_clock :: int
  lf_phase :: shutdown_phase

text \<open>\<^verbatim>\<open>h.shutdownCancel()\<close>: the first call closes the context's channel, later ones do nothing.\<close>

definition shutdownCancel :: "int \<Rightarrow> 'o Handler \<Rightarrow> 'o Handler" where
  "shutdownCancel now h =
     (case ctx_done (shutdownCtx h) of
        None \<Rightarrow> h\<lparr>shutdownCtx := (shutdownCtx h)\<lparr>ctx_done := Some (now, context_Canceled)\<rparr>\<rparr>
      | Some _ \<Rightarrow> h)"

definition Shutdown_begin :: "int \<Rightarrow> duration \<Rightarrow> ('o, 'w) handler_state \<Rightarrow> ('o, 'w) handler_state" where
  "Shutdown_begin now timeout st =
     st\<lparr>hs_log := hs_log st @ [LogInfo (h_logger (hs_handler st)) ''Initiating handler shutdown''
                                  [(''timeout'', duration_String timeout)]]\<rparr>"

definition Shutdown_drained :: "int \<Rightarrow> ('o, 'w) handler_state \<Rightarrow> err \<times> ('o, 'w) handler_state" where
  "Shutdown_drained now st =
     (None,
      st\<lparr>hs_log := hs_log st @ [LogInfo (h_logger (hs_handler st))
           ''All BestEffort outputs completed successfully or maximum retries reached'' []],
         hs_handler := shutdownCancel now (hs_handler st)\<rparr>)"

definition Shutdown_timeout ::
    "int \<Rightarrow> duration \<Rightarrow> ('o, 'w) handler_state \<Rightarrow> err \<times> ('o, 'w) handler_state" where
  "Shutdown_timeout now timeout st =
     (Some (Errors_New (''shutdown timeout exceeded after '' @ duration_String timeout
        @ '', some BestEffort outputs may not have completed'')),
      st\<lparr>hs_handler := shutdownCancel now (hs_handler st)\<rparr>)"

text \<open>Best-effort goroutine number \<open>i\<close> of those running has forwarded its data and calls \<^verbatim>\<open>wg.Done\<close>.\<close>

definition finish_task ::
    "('o, 'w) output_ops \<Rightarrow> 'o list \<Rightarrow> nat \<Rightarrow> ('o, 'w) handler_state \<Rightarrow> ('o, 'w) handler_state" where
  "finish_task ops reports i st =
     (let h = hs_handler st; t = hs_tasks st ! i;
          (m, lg) = forwardToBestEffortOutputs ops reports (shutdownCtx h) (task_data t) (task_log t)
                      (hs_metrics st, hs_log st)
      in st\<lparr>hs_handler := h\<lparr>bestEffortWg := bestEffortWg h - 1\<rparr>,
            hs_metrics := m, hs_log := lg,
            hs_sends := hs_sends st @ sends_of ops (WithLogger (shutdownCtx h) (task_log t)) (task_data t)
                          (bestEffortOutputs h),
            hs_tasks := take i (hs_tasks st) @ drop (Suc i) (hs_tasks st)\<rparr>)"

inductive life_step :: "('o \<Rightarrow> string) \<Rightarrow> ('o, 'w) life \<Rightarrow> ('o, 'w) life \<Rightarrow> bool" for name where
  life_serve: "Op_Name ops = name \<Longrightarrow> valid_schedule (guaranteedOutputs (hs_handler (lf_state s))) sched \<Longrightarrow>
    ServeHTTP ops req_id sched r w (lf_state s) = (w', st') \<Longrightarrow> life_step name s (s\<lparr>lf_state := st'\<rparr>)"
| life_finish: "Op_Name ops = name \<Longrightarrow> i < length (hs_tasks (lf_state s)) \<Longrightarrow>
    mset reports = mset (bestEffortOutputs (hs_handler (lf_state s))) \<Longrightarrow>
    life_step name s (s\<lparr>lf_state := finish_task ops reports i (lf_state s)\<rparr>)"
| life_tick: "0 < d \<Longrightarrow> life_step name s (s\<lparr>lf_clock := lf_clock s + d\<rparr>)"
| life_shutdown: "lf_phase s = NotCalled \<Longrightarrow>
    life_step name s (s\<lparr>lf_state := Shutdown_begin (lf_clock s) timeout (lf_state s),
      lf_phase := Waiting \<lparr>sc_start = lf_clock s, sc_timeout = timeout, sc_mark = hs_next (lf_state s)\<rparr> False\<rparr>)"
| life_waiter: "lf_phase s = Waiting c False \<Longrightarrow> bestEffortWg (hs_handler (lf_state s)) = 0 \<Longrightarrow>
    life_step name s (s\<lparr>lf_phase := Waiting c True\<rparr>)"
| life_drained: "lf_phase s = Waiting c True \<Longrightarrow> Shutdown_drained (lf_clock s) (lf_state s) = (e, st') \<Longrightarrow>
    life_step name s (s\<lparr>lf_state := st', lf_phase := Returned c e\<rparr>)"
| life_timeout: "lf_phase s = Waiting c b \<Longrightarrow> sc_start c + sint (sc_timeout c) \<le> lf_clock s \<Longrightarrow>
    Shutdown_timeout (lf_clock s) (sc_timeout c) (lf_state s) = (e, st') \<Longrightarrow>
    life_step name s (s\<lparr>lf_state := st', lf_phase := Returned c e\<rparr>)"

inductive_simps life_step_simps: "life_step name s s'"

text \<open>A handler as \<^verbatim>\<open>NewHandler\<close> returns it, with the counters \<open>m\<close> found there.\<close>

definition life_init :: "'o Handler \<Rightarrow> metrics \<Rightarrow> int \<Rightarrow> ('o, 'w) life" where
  "life_init h m now =
     \<lparr>lf_state = \<lparr>hs_handler = h, hs_metrics = m, hs_log = [], hs_sends = [], hs_tasks = [], hs_next = 0\<rparr>,
      lf_clock = now, lf_phase = NotCalled\<rparr>"

section \<open>Invariant\<close>

definition tasks_ok :: "('o, 'w) handler_state \<Rightarrow> bool" where
  "tasks_ok st \<longleftrightarrow> bestEffortWg (hs_handler st) = length (hs_tasks st)
     \<and> distinct (map task_id (hs_tasks st)) \<and> (\<forall>t\<in>set (hs_tasks st). task_id t < hs_next st)
     \<and> length (hs_tasks st) \<le> hs_next st"

text \<open>No goroutine that was running at the call of \<^verbatim>\<open>Shutdown\<close> is left.\<close>

definition drained :: "nat \<Rightarrow> ('o, 'w) handler_state \<Rightarrow> bool" where
  "drained mark st \<longleftrightarrow> (\<forall>t\<in>set (hs_tasks st). mark \<le> task_id t)"

definition cancelled :: "('o, 'w) handler_state \<Rightarrow> bool" where
  "cancelled st \<longleftrightarrow> ctx_done (shutdownCtx (hs_handler st)) \<noteq> None"

definition phase_ok :: "('o, 'w) life \<Rightarrow> bool" where
  "phase_ok s \<longleftrightarrow>
     (case lf_phase s of
        NotCalled \<Rightarrow> \<not> cancelled (lf_state s)
      | Waiting c b \<Rightarrow> \<not> cancelled (lf_state s) \<and> sc_mark c \<le> hs_next (lf_state s)
          \<and> (b \<longrightarrow> drained (sc_mark c) (lf_state s))
      | Returned c e \<Rightarrow> cancelled (lf_state s) \<and> sc_mark c \<le> hs_next (lf_state s)
          \<and> (e = None \<longrightarrow> drained (sc_mark c) (lf_state s))
          \<and> (e \<noteq> None \<longrightarrow> sc_start c + sint (sc_timeout c) \<le> lf_clock s))"

text \<open>
  Best-effort sends, per output name: each finished goroutine has counted each output of the name once.
\<close>

definition be_counted :: "('o \<Rightarrow> string) \<Rightarrow> 'o list \<Rightarrow> metrics \<Rightarrow> ('o, 'w) handler_state \<Rightarrow> bool" where
  "be_counted name bs m st \<longleftrightarrow> bestEffortOutputs (hs_handler st) = bs \<and>
     (\<forall>n. OutputSucceeded (hs_metrics st) (n, DeliveryModeBestEffort)
          + OutputFailed (hs_metrics st) (n, DeliveryModeBestEffort)
        = OutputSucceeded m (n, DeliveryModeBestEffort) + OutputFailed m (n, DeliveryModeBestEffort)
          + (hs_next st - length (hs_tasks st)) * length (filter (\<lambda>out. name out = n) bs))"

definition life_inv :: "('o \<Rightarrow> string) \<Rightarrow> 'o list \<Rightarrow> metrics \<Rightarrow> ('o, 'w) life \<Rightarrow> bool" where
  "life_inv name bs m s \<longleftrightarrow> tasks_ok (lf_state s) \<and> phase_ok s \<and> be_counted name bs m (lf_state s)"


lemma modes_differ: "DeliveryModeBestEffort \<noteq> DeliveryModeGuaranteed"
  by (simp add: DeliveryModeBestEffort_def DeliveryModeGuaranteed_def)

text \<open>A served request keeps everything but may add one goroutine, with a fresh number.\<close>

lemma ServeHTTP_life:
  assumes "ServeHTTP ops req_id sched r w st = (w', st')"
    and "valid_schedule (guaranteedOutputs (hs_handler st)) sched"
  shows "shutdownCtx (hs_handler st') = shutdownCtx (hs_handler st)"
    and "bestEffortOutputs (hs_handler st') = bestEffortOutputs (hs_handler st)"
    and "OutputSucceeded (hs_metrics st') (n, DeliveryModeBestEffort) = OutputSucceeded (hs_metrics st) (n, DeliveryModeBestEffort)"
    and "OutputFailed (hs_metrics st') (n, DeliveryModeBestEffort) = OutputFailed (hs_metrics st) (n, DeliveryModeBestEffort)"
    and "(hs_tasks st' = hs_tasks st \<and> hs_next st' = hs_next st
          \<and> bestEffortWg (hs_handler st') = bestEffortWg (hs_handler st))
       \<or> (\<exists>t. hs_tasks st' = hs_tasks st @ [t] \<and> task_id t = hs_next st \<and> hs_next st' = hs_next st + 1
          \<and> bestEffortWg (hs_handler st') = bestEffortWg (hs_handler st) + 1)"
  using assms
  by (cases rule: ServeHTTP_E; simp add: serve_simps fold_meter_send_counts modes_differ
      AuditReceived_Inc_def AuditFailed_Inc_def AuditSucceeded_Inc_def)+

lemma tasks_ok_serve:
  assumes "tasks_ok st" and "ServeHTTP ops req_id sched r w st = (w', st')"
    and "valid_schedule (guaranteedOutputs (hs_handler st)) sched"
  shows "tasks_ok st'"
  using ServeHTTP_life(5) [OF assms(2,3)] assms(1) by (fastforce simp: tasks_ok_def)

lemma drained_serve:
  assumes "drained k st" and "k \<le> hs_next st" and "ServeHTTP ops req_id sched r w st = (w', st')"
    and "valid_schedule (guaranteedOutputs (hs_handler st)) sched"
  shows "drained k st' \<and> k \<le> hs_next st'"
  using ServeHTTP_life(5) [OF assms(3,4)] assms(1,2) by (auto simp: drained_def)

lemma next_serve:
  assumes "ServeHTTP ops req_id sched r w st = (w', st')"
    and "valid_schedule (guaranteedOutputs (hs_handler st)) sched"
  shows "hs_next st \<le> hs_next st' \<and> cancelled st' = cancelled st
    \<and> hs_next st' - length (hs_tasks st') = hs_next st - length (hs_tasks st)"
  using ServeHTTP_life(1,5) [OF assms] by (auto simp: cancelled_def)

lemma finish_task_simps:
  "bestEffortWg (hs_handler (finish_task ops reports i st)) = bestEffortWg (hs_handler st) - 1"
  "bestEffortOutputs (hs_handler (finish_task ops reports i st)) = bestEffortOutputs (hs_handler st)"
  "shutdownCtx (hs_handler (finish_task ops reports i st)) = shutdownCtx (hs_handler st)"
  "hs_tasks (finish_task ops reports i st) = take i (hs_tasks st) @ drop (Suc i) (hs_tasks st)"
  "hs_next (finish_task ops reports i st) = hs_next st"
  by (simp_all add: finish_task_def Let_def split: prod.splits)

lemma finish_task_metrics:
  "hs_metrics (finish_task ops reports i st) = fold (meter_send DeliveryModeBestEffort)
     (send_marks ops (WithLogger (shutdownCtx (hs_handler st)) (task_log (hs_tasks st ! i)))
       (task_data (hs_tasks st ! i)) reports) (hs_metrics st)"
  using report_best_effort_metrics [of ops "WithLogger (shutdownCtx (hs_handler st)) (task_log (hs_tasks st ! i))"
      "task_data (hs_tasks st ! i)" "task_log (hs_tasks st ! i)" reports "(hs_metrics st, hs_log st)"]
  by (auto simp: finish_task_def Let_def forwardToBestEffortOutputs_def split: prod.splits)

lemma finish_task_subset: "set (hs_tasks (finish_task ops reports i st)) \<subseteq> set (hs_tasks st)"
  by (auto simp: finish_task_simps dest: in_set_takeD in_set_dropD)

lemma tasks_ok_finish:
  assumes "tasks_ok st" and "i < length (hs_tasks st)"
  shows "tasks_ok (finish_task ops reports i st)"
proof -
  have "distinct (map task_id (take i (hs_tasks st) @ hs_tasks st ! i # drop (Suc i) (hs_tasks st)))"
    using assms by (simp add: tasks_ok_def id_take_nth_drop [symmetric])
  then have "distinct (map task_id (take i (hs_tasks st) @ drop (Suc i) (hs_tasks st)))" by auto
  then show ?thesis
    using assms finish_task_subset [of ops reports i st] by (auto simp: tasks_ok_def finish_task_simps)
qed

lemma drained_finish: "drained k st \<Longrightarrow> drained k (finish_task ops reports i st)"
  using finish_task_subset [of ops reports i st] by (auto simp: drained_def)

lemma send_marks_total:
  "count (mset (send_marks ops ctx data os)) (n, True) + count (mset (send_marks ops ctx data os)) (n, False)
     = length (filter (\<lambda>out. Op_Name ops out = n) os)"
  by (induction os) (auto simp: send_marks_def)


lemma be_counted_finish:
  assumes "be_counted name bs m st" and "tasks_ok st" and "i < length (hs_tasks st)"
    and "mset reports = mset bs" and "Op_Name ops = name"
  shows "be_counted name bs m (finish_task ops reports i st)"
proof -
  let ?marks = "send_marks ops (WithLogger (shutdownCtx (hs_handler st)) (task_log (hs_tasks st ! i)))
    (task_data (hs_tasks st ! i)) reports"
  have "length (filter (\<lambda>out. name out = n) reports) = length (filter (\<lambda>out. name out = n) bs)" for n
    using assms(4) by (metis mset_filter size_mset)
  then have c: "length (filter (\<lambda>out. name out = n) bs) = count (mset ?marks) (n, True) + count (mset ?marks) (n, False)"
    for n using send_marks_total assms(5) by metis
  have n: "hs_next st - (length (hs_tasks st) - 1) = Suc (hs_next st - length (hs_tasks st))"
    using assms(2,3) by (simp add: tasks_ok_def Suc_diff_le)
  have l: "length (hs_tasks (finish_task ops reports i st)) = length (hs_tasks st) - 1"
    using assms(3) by (simp add: finish_task_simps)
  have arith: "(a + c1) + (b + c2) = base + Suc k * len"
    if "a + b = base + k * len" "len = c1 + c2" for a b c1 c2 base k len :: nat
    using that by simp
  show ?thesis
    using assms(1) arith [OF _ c]
    by (simp only: be_counted_def l n finish_task_metrics finish_task_simps(2,5) fold_meter_send_counts if_True simp_thms)
qed

lemma be_counted_serve:
  assumes "be_counted name bs m st" and "ServeHTTP ops req_id sched r w st = (w', st')"
    and "valid_schedule (guaranteedOutputs (hs_handler st)) sched"
  shows "be_counted name bs m st'"
  using assms(1) ServeHTTP_life(2-4) [OF assms(2,3)] next_serve [OF assms(2,3)]
  by (simp add: be_counted_def)

lemma shutdownCancel_simps [simp]:
  "bestEffortWg (shutdownCancel now h) = bestEffortWg h"
  "bestEffortOutputs (shutdownCancel now h) = bestEffortOutputs h"
  "\<exists>t e. ctx_done (shutdownCtx (shutdownCancel now h)) = Some (t, e)"
  by (auto simp: shutdownCancel_def split: option.splits)

lemma life_inv_init:
  assumes "NewHandler l ps gs bs = Inr h"
  shows "life_inv name bs m (life_init h m now)"
  using assms
  by (auto simp: NewHandler_def life_inv_def life_init_def tasks_ok_def phase_ok_def be_counted_def
      cancelled_def context_Background_def split: if_splits)

lemma life_inv_step:
  assumes "life_step name s s'" and inv: "life_inv name bs m s"
  shows "life_inv name bs m s'"
  using assms(1)
proof (cases rule: life_step.cases)
  case (life_serve ops sched req_id r w w' st')
  have ph: "phase_ok s" using inv by (simp add: life_inv_def)
  have "phase_ok (s\<lparr>lf_state := st'\<rparr>)"
    using ph next_serve [OF life_serve(4,3)] drained_serve [OF _ _ life_serve(4,3)]
    by (auto simp: phase_ok_def split: shutdown_phase.splits)
  with life_serve inv tasks_ok_serve be_counted_serve show ?thesis by (auto simp: life_inv_def)
next
  case (life_finish ops i reports)
  have "phase_ok (s\<lparr>lf_state := finish_task ops reports i (lf_state s)\<rparr>)"
    using inv drained_finish
    by (auto simp: life_inv_def phase_ok_def finish_task_simps cancelled_def split: shutdown_phase.splits)
  moreover have "mset reports = mset bs" using life_finish(4) inv by (simp add: life_inv_def be_counted_def)
  ultimately show ?thesis
    using life_finish inv by (simp add: life_inv_def tasks_ok_finish be_counted_finish)
next
  case (life_tick d)
  with inv show ?thesis by (auto simp: life_inv_def phase_ok_def split: shutdown_phase.splits)
next
  case (life_shutdown timeout)
  with inv show ?thesis
    by (simp add: life_inv_def phase_ok_def Shutdown_begin_def tasks_ok_def be_counted_def cancelled_def)
next
  case (life_waiter c)
  with inv show ?thesis by (simp add: life_inv_def phase_ok_def tasks_ok_def drained_def)
next
  case (life_drained c e st')
  with inv show ?thesis
    by (auto simp: life_inv_def phase_ok_def Shutdown_drained_def tasks_ok_def be_counted_def cancelled_def drained_def)
next
  case (life_timeout c b e st')
  with inv show ?thesis
    by (auto simp: life_inv_def phase_ok_def Shutdown_timeout_def tasks_ok_def be_counted_def cancelled_def)
qed

lemma life_reach_inv:
  assumes "NewHandler l ps gs bs = Inr h" and "(life_step name)\<^sup>*\<^sup>* (life_init h m now) s"
  shows "life_inv name bs m s"
  using assms(2)
  by (induction rule: rtranclp_induct) (auto intro: life_inv_init [OF assms(1)] life_inv_step)


section \<open>Properties\<close>


text \<open>
  The shutdown context is cancelled exactly when \<^verbatim>\<open>Shutdown\<close> has returned, with either
  result: best-effort sends are never cut short before, and no best-effort goroutine that starts or is
  still running afterwards can retry for long.
\<close>

lemma Shutdown_cancels:
  assumes "NewHandler l ps gs bs = Inr h" and "(life_step name)\<^sup>*\<^sup>* (life_init h m now) s"
  shows "ctx_done (shutdownCtx (hs_handler (lf_state s))) \<noteq> None \<longleftrightarrow> (\<exists>c e. lf_phase s = Returned c e)"
  using life_reach_inv [OF assms]
  by (auto simp: life_inv_def phase_ok_def cancelled_def split: shutdown_phase.splits)

text \<open>
  The wait group counts the best-effort goroutines that are running, and nothing they do is
  lost: for every output name the counters of best-effort sends, succeeded and failed together, have
  grown by one for each finished goroutine and each best-effort output of that name.
\<close>

lemma best_effort_accounting:
  assumes "NewHandler l ps gs bs = Inr h" and "(life_step name)\<^sup>*\<^sup>* (life_init h m now) s"
  shows "bestEffortWg (hs_handler (lf_state s)) = length (hs_tasks (lf_state s))
    \<and> OutputSucceeded (hs_metrics (lf_state s)) (n, DeliveryModeBestEffort)
        + OutputFailed (hs_metrics (lf_state s)) (n, DeliveryModeBestEffort)
      = OutputSucceeded m (n, DeliveryModeBestEffort) + OutputFailed m (n, DeliveryModeBestEffort)
        + (hs_next (lf_state s) - length (hs_tasks (lf_state s))) * length (filter (\<lambda>out. name out = n) bs)"
  using life_reach_inv [OF assms] by (simp add: life_inv_def tasks_ok_def be_counted_def)

section \<open>A concrete life\<close>

definition sample_life_handler :: "string Handler" where
  "sample_life_handler = projr (NewHandler Discard [] [''a''] [''c''])"

lemma sample_life_handler: "NewHandler Discard [] [''a''] [''c''] = Inr sample_life_handler"
  by (simp add: sample_life_handler_def NewHandler_def)

abbreviation sample_life :: "(string, unit) life" where
  "sample_life \<equiv> life_init sample_life_handler no_metrics 0"

text \<open>\<^verbatim>\<open>Shutdown\<close> is called, its waiter finds the wait group at zero, it returns nil.\<close>

lemma sample_life_run:
  "\<exists>s c. (life_step (\<lambda>out. out))\<^sup>*\<^sup>* sample_life s \<and> lf_phase s = Returned c None"
proof -
  let ?c = "\<lparr>sc_start = 0, sc_timeout = 30 * Second, sc_mark = 0\<rparr>"
  let ?s1 = "sample_life\<lparr>lf_state := Shutdown_begin 0 (30 * Second) (lf_state sample_life), lf_phase := Waiting ?c False\<rparr>"
  let ?s2 = "?s1\<lparr>lf_phase := Waiting ?c True\<rparr>"
  have "life_step (\<lambda>out. out) sample_life ?s1"
    using life_shutdown [of sample_life "\<lambda>out. out" "30 * Second"] by (simp add: life_init_def)
  moreover have "life_step (\<lambda>out. out) ?s1 ?s2"
    by (rule life_waiter) (simp_all add: life_init_def Shutdown_begin_def sample_life_handler_def NewHandler_def)
  moreover have "life_step (\<lambda>out. out) ?s2
      (?s2\<lparr>lf_state := snd (Shutdown_drained (lf_clock ?s2) (lf_state ?s2)), lf_phase := Returned ?c None\<rparr>)"
    by (rule life_drained) (simp_all add: Shutdown_drained_def)
  ultimately have "(life_step (\<lambda>out. out))\<^sup>*\<^sup>* sample_life
      (?s2\<lparr>lf_state := snd (Shutdown_drained (lf_clock ?s2) (lf_state ?s2)), lf_phase := Returned ?c None\<rparr>)"
    by (meson converse_rtranclp_into_rtranclp r_into_rtranclp)
  then show ?thesis by (intro exI conjI) auto
qed


theorem Shutdown_cancels_witness:
  "\<exists>s. (life_step (\<lambda>out. out))\<^sup>*\<^sup>* sample_life s \<and> ctx_done (shutdownCtx (hs_handler (lf_state s))) \<noteq> None"
  using sample_life_run Shutdown_cancels [OF sample_life_handler, where m = no_metrics and now = 0] by blast

theorem best_effort_accounting_witness:
  "\<exists>s. (life_step (\<lambda>out. out))\<^sup>*\<^sup>* sample_life s
     \<and> bestEffortWg (hs_handler (lf_state s)) = length (hs_tasks (lf_state s))"
  using sample_life_run best_effort_accounting [OF sample_life_handler, where m = no_metrics and now = 0] by blast

end
