(* ===== verification/WaitGroup.thy ===== *)
theory WaitGroup
  imports StepSystem
begin

text \<open>
  The wait groups of the program. Everywhere else a \<^verbatim>\<open>sync.WaitGroup\<close> is a counter that a waiter sees at zero; here
  it is what Go's implementation makes of it: one atomic word with the number of running goroutines and of waiters, a
  semaphore on which a waiter sleeps, and three checks that panic when the group is misused.

  The program has three kinds of groups (\<^verbatim>\<open>src/internal/handler/audit/handler.go\<close>,
  \<^verbatim>\<open>src/internal/output/http/http.go\<close>), each with one waiter. In the two fan-outs and in the HTTP output all calls of
  \<^verbatim>\<open>Add\<close> or \<^verbatim>\<open>Go\<close> happen before \<^verbatim>\<open>Wait\<close> is called. In the handler \<^verbatim>\<open>ServeHTTP\<close> calls \<^verbatim>\<open>Go\<close> for every request,
  and \<^verbatim>\<open>Shutdown\<close> calls \<^verbatim>\<open>Wait\<close> while the server still accepts requests. The lemmas show that groups of the first
  kind behave like the counter, never panic and let the waiter return, and that the last one can panic.
\<close>

section \<open>The group and its users\<close>

text \<open>
  A goroutine that was added is running, or its \<^verbatim>\<open>Done\<close> has brought the counter to zero with a waiter registered and it
  is about to check the word (\<open>Checking\<close>) and then to reset it and release the waiter (\<open>Releasing\<close>), or it is gone.
\<close>

datatype worker = Working | Checking | Releasing | Gone

text \<open>The waiter has not called \<^verbatim>\<open>Wait\<close>, sleeps on the semaphore, has been woken up, or has returned.\<close>

datatype waiter = Before | Asleep | Woken | After

record wait_group =
  wg_v :: int
  wg_w :: nat
  wg_sema :: nat
  wg_workers :: "worker list"
  wg_waiter :: waiter
  wg_panic :: bool

definition wg_init :: wait_group where
  "wg_init = \<lparr>wg_v = 0, wg_w = 0, wg_sema = 0, wg_workers = [], wg_waiter = Before, wg_panic = False\<rparr>"

text \<open>\<^verbatim>\<open>Add(1)\<close>: it panics if the counter was zero while a waiter is registered.\<close>

definition wg_add :: "wait_group \<Rightarrow> wait_group" where
  "wg_add g = g\<lparr>wg_v := wg_v g + 1, wg_workers := wg_workers g @ [Working],
     wg_panic := wg_panic g \<or> (wg_w g \<noteq> 0 \<and> wg_v g + 1 = 1)\<rparr>"

text \<open>\<^verbatim>\<open>Done\<close>, that is \<^verbatim>\<open>Add(-1)\<close>: the atomic subtraction and what it decides.\<close>

definition wg_done :: "nat \<Rightarrow> wait_group \<Rightarrow> wait_group" where
  "wg_done i g =
     (let v = wg_v g - 1
      in if v < 0 then g\<lparr>wg_v := v, wg_panic := True\<rparr>
         else g\<lparr>wg_v := v, wg_workers := (wg_workers g)[i := if v > 0 \<or> wg_w g = 0 then Gone else Checking]\<rparr>)"

text \<open>
  A step of the group, for users that call \<^verbatim>\<open>Go\<close> when \<open>adds\<close> allows it: a panic ends the process. \<^verbatim>\<open>Wait\<close> returns at once
  if it finds the counter at zero, and otherwise registers and sleeps; its load and compare-and-swap succeed on the
  same value and are one step.
\<close>

inductive group_step :: "(waiter \<Rightarrow> bool) \<Rightarrow> wait_group \<Rightarrow> wait_group \<Rightarrow> bool" for adds where
  group_go: "\<not> wg_panic g \<Longrightarrow> adds (wg_waiter g) \<Longrightarrow> group_step adds g (wg_add g)"
| group_done: "\<not> wg_panic g \<Longrightarrow> i < length (wg_workers g) \<Longrightarrow> wg_workers g ! i = Working \<Longrightarrow>
    group_step adds g (wg_done i g)"
| group_check: "\<not> wg_panic g \<Longrightarrow> i < length (wg_workers g) \<Longrightarrow> wg_workers g ! i = Checking \<Longrightarrow>
    group_step adds g (if wg_v g = 0 \<and> wg_w g = 1 then g\<lparr>wg_workers := (wg_workers g)[i := Releasing]\<rparr> else g\<lparr>wg_panic := True\<rparr>)"
| group_release: "\<not> wg_panic g \<Longrightarrow> i < length (wg_workers g) \<Longrightarrow> wg_workers g ! i = Releasing \<Longrightarrow>
    group_step adds g (g\<lparr>wg_v := 0, wg_w := 0, wg_sema := wg_sema g + 1, wg_workers := (wg_workers g)[i := Gone]\<rparr>)"
| group_wait: "\<not> wg_panic g \<Longrightarrow> wg_waiter g = Before \<Longrightarrow>
    group_step adds g (if wg_v g = 0 then g\<lparr>wg_waiter := After\<rparr> else g\<lparr>wg_w := wg_w g + 1, wg_waiter := Asleep\<rparr>)"
| group_wake: "\<not> wg_panic g \<Longrightarrow> wg_waiter g = Asleep \<Longrightarrow> 0 < wg_sema g \<Longrightarrow>
    group_step adds g (g\<lparr>wg_sema := wg_sema g - 1, wg_waiter := Woken\<rparr>)"
| group_return: "\<not> wg_panic g \<Longrightarrow> wg_waiter g = Woken \<Longrightarrow>
    group_step adds g (if wg_v g = 0 \<and> wg_w g = 0 then g\<lparr>wg_waiter := After\<rparr> else g\<lparr>wg_panic := True\<rparr>)"

inductive_cases group_stepE: "group_step adds g g'"

text \<open>
  The two ways the program uses its groups: the goroutine that starts the others is the one that waits, so nothing is
  added once it waits; or requests go on adding while \<^verbatim>\<open>Shutdown\<close> waits.
\<close>

definition adds_first :: "waiter \<Rightarrow> bool" where
  "adds_first x \<longleftrightarrow> x = Before"

definition adds_always :: "waiter \<Rightarrow> bool" where
  "adds_always x \<longleftrightarrow> True"

section \<open>Invariant\<close>

text \<open>
  As long as there was no panic, the counter is the number of running goroutines; a registered waiter sleeps; and when
  the counter is zero with a waiter registered, exactly one goroutine is about to release it.
\<close>

definition workers_in :: "worker \<Rightarrow> wait_group \<Rightarrow> nat" where
  "workers_in p g = count (mset (wg_workers g)) p"

definition wg_inv :: "wait_group \<Rightarrow> bool" where
  "wg_inv g \<longleftrightarrow>
     (wg_panic g \<or>
       wg_v g = int (workers_in Working g)
     \<and> workers_in Checking g + workers_in Releasing g = (if wg_w g = 1 \<and> wg_v g = 0 then 1 else 0)
     \<and> wg_w g + wg_sema g = (if wg_waiter g = Asleep then 1 else 0))"

lemma workers_in_upd:
  assumes "i < length (wg_workers g)" and "wg_workers g ! i = p" and "p \<noteq> q"
  shows "count (mset ((wg_workers g)[i := q])) r =
    (if r = q then workers_in r g + 1 else if r = p then workers_in r g - 1 else workers_in r g)"
  using assms by (auto simp: workers_in_def mset_update)

lemma workers_in_pos: "i < length (wg_workers g) \<Longrightarrow> 0 < workers_in (wg_workers g ! i) g"
  by (simp add: workers_in_def)

lemma worker_obtain:
  assumes "0 < workers_in p g"
  obtains i where "i < length (wg_workers g)" and "wg_workers g ! i = p"
  using assms by (auto simp: workers_in_def in_set_conv_nth)

lemma wg_init_inv: "wg_inv wg_init"
  by (simp add: wg_inv_def wg_init_def workers_in_def)

lemma wg_inv_step:
  assumes "group_step adds g g'" and inv: "wg_inv g"
  shows "wg_inv g'"
  using assms(1)
proof cases
  case group_go
  with inv show ?thesis by (auto simp: wg_inv_def wg_add_def workers_in_def split: if_splits)
next
  case (group_done i)
  note u = workers_in_upd [OF group_done(3,4)]
  have "0 < workers_in Working g" using workers_in_pos [OF group_done(3)] group_done(4) by simp
  with group_done inv show ?thesis
    by (auto simp: wg_inv_def wg_done_def Let_def workers_in_def [of _ "wg_workers_update _ _"] u split: if_splits)
next
  case (group_check i)
  note u = workers_in_upd [OF group_check(3,4)]
  have "0 < workers_in Checking g" using workers_in_pos [OF group_check(3)] group_check(4) by simp
  with group_check inv show ?thesis
    by (auto simp: wg_inv_def workers_in_def [of _ "wg_workers_update _ _"] u split: if_splits)
next
  case (group_release i)
  note u = workers_in_upd [OF group_release(3,4)]
  have "0 < workers_in Releasing g" using workers_in_pos [OF group_release(3)] group_release(4) by simp
  with group_release inv show ?thesis
    by (auto simp: wg_inv_def workers_in_def [of _ "wg_workers_update _ _"] u split: if_splits)
qed (use inv in \<open>auto simp: wg_inv_def workers_in_def split: if_splits\<close>)

lemma wg_reach_inv: "(group_step adds)\<^sup>*\<^sup>* wg_init g \<Longrightarrow> wg_inv g"
  by (induction rule: rtranclp_induct) (auto intro: wg_init_inv wg_inv_step)

section \<open>Adding before waiting\<close>

definition safe_inv :: "wait_group \<Rightarrow> bool" where
  "safe_inv g \<longleftrightarrow> wg_inv g \<and> \<not> wg_panic g \<and> (wg_waiter g \<noteq> Before \<and> wg_w g = 0 \<longrightarrow> wg_v g = 0)"

lemma safe_inv_step:
  assumes st: "group_step adds_first g g'" and inv: "safe_inv g"
  shows "safe_inv g'"
proof -
  have i: "wg_inv g" "wg_inv g'" using inv wg_inv_step [OF st] by (auto simp: safe_inv_def)
  from st show ?thesis
  proof cases
    case (group_check i)
    have "0 < workers_in Checking g" using workers_in_pos [OF group_check(3)] group_check(4) by simp
    with group_check i inv show ?thesis by (auto simp: safe_inv_def wg_inv_def split: if_splits)
  next
    case (group_done k)
    have "0 < workers_in Working g" using workers_in_pos [OF group_done(3)] group_done(4) by simp
    with group_done i inv show ?thesis
      by (auto simp: safe_inv_def wg_inv_def [of g] wg_done_def Let_def split: if_splits)
  qed (use i inv in \<open>auto simp: safe_inv_def wg_inv_def [of g] wg_add_def adds_first_def split: if_splits\<close>)
qed

definition wg_work :: "wait_group \<Rightarrow> nat" where
  "wg_work g = 3 * workers_in Working g + 2 * workers_in Checking g + workers_in Releasing g
     + (case wg_waiter g of Before \<Rightarrow> 3 | Asleep \<Rightarrow> 2 | Woken \<Rightarrow> 1 | After \<Rightarrow> 0)"

lemma wg_work_upd:
  assumes "i < length (wg_workers g)" and "wg_workers g ! i = p" and "p \<noteq> q"
    and "wg_workers g' = (wg_workers g)[i := q]" and "wg_waiter g' = wg_waiter g"
    and "(p, q) \<in> {(Working, Checking), (Working, Gone), (Checking, Releasing), (Releasing, Gone)}"
  shows "wg_work g' < wg_work g"
proof -
  have "0 < workers_in p g" using workers_in_pos [OF assms(1)] assms(2) by simp
  then show ?thesis
    using assms(3-6) by (auto simp: wg_work_def workers_in_def [of _ g'] workers_in_upd [OF assms(1-3)])
qed

text \<open>Without a panic every step but \<^verbatim>\<open>Go\<close> makes progress.\<close>

lemma wg_work_step:
  assumes "group_step adds g g'" and "\<not> adds (wg_waiter g)" and "\<not> wg_panic g'"
  shows "wg_work g' < wg_work g"
  using assms(1)
proof cases
  case (group_done i)
  then show ?thesis using assms(3)
    by (intro wg_work_upd [of i g Working "if 0 < wg_v g - 1 \<or> wg_w g = 0 then Gone else Checking"])
       (auto simp: wg_done_def Let_def split: if_splits)
next
  case (group_check i)
  then show ?thesis using assms(3)
    by (intro wg_work_upd [of i g Checking Releasing]) (auto split: if_splits)
next
  case (group_release i)
  then show ?thesis by (intro wg_work_upd [of i g Releasing Gone]) auto
qed (use assms(2,3) in \<open>auto simp: wg_work_def workers_in_def split: if_splits\<close>)

lemma wg_progress:
  assumes inv: "wg_inv g" "\<not> wg_panic g" and "wg_waiter g = Asleep" and "wg_w g = 1"
  obtains g' where "group_step adds g g'" and "wg_waiter g' = Asleep" and "\<not> wg_panic g'" and "wg_work g' < wg_work g"
proof (cases "wg_v g = 0")
  case True
  with assms have "workers_in Checking g + workers_in Releasing g = 1" by (simp add: wg_inv_def)
  then consider "0 < workers_in Checking g" | "0 < workers_in Releasing g" by linarith
  then show thesis
  proof cases
    case 1
    then obtain i where i: "i < length (wg_workers g)" "wg_workers g ! i = Checking" by (rule worker_obtain)
    from group_check [OF inv(2) i, of adds] True assms(3,4) wg_work_upd [OF i, of Releasing] inv(2) show thesis
      by (intro that [of "g\<lparr>wg_workers := (wg_workers g)[i := Releasing]\<rparr>"]) simp_all
  next
    case 2
    then obtain i where i: "i < length (wg_workers g)" "wg_workers g ! i = Releasing" by (rule worker_obtain)
    from group_release [OF inv(2) i, of adds] assms(3) wg_work_upd [OF i, of Gone] inv(2) show thesis
      by (intro that [of "g\<lparr>wg_v := 0, wg_w := 0, wg_sema := wg_sema g + 1, wg_workers := (wg_workers g)[i := Gone]\<rparr>"]) simp_all
  qed
next
  case False
  then have "0 < workers_in Working g" using inv by (simp add: wg_inv_def)
  then obtain i where i: "i < length (wg_workers g)" "wg_workers g ! i = Working" by (rule worker_obtain)
  have p: "\<not> wg_panic (wg_done i g)" "wg_waiter (wg_done i g) = Asleep"
    using False inv assms(3) by (auto simp: wg_done_def Let_def wg_inv_def)
  moreover have "wg_work (wg_done i g) < wg_work g"
    using False inv i
    by (intro wg_work_upd [OF i, of "if 0 < wg_v g - 1 \<or> wg_w g = 0 then Gone else Checking"])
       (auto simp: wg_done_def Let_def wg_inv_def split: if_splits)
  ultimately show thesis using group_done [OF inv(2) i, of adds] by (intro that)
qed

lemma waiting_stays: "group_step adds g g' \<Longrightarrow> wg_waiter g \<noteq> Before \<Longrightarrow> wg_waiter g' \<noteq> Before"
  by (induction rule: group_step.induct) (auto simp: wg_add_def wg_done_def Let_def)

interpretation waiting: progressing_system "group_step adds_first" "\<lambda>g. safe_inv g \<and> wg_waiter g \<noteq> Before" wg_work
    "\<lambda>g. wg_waiter g = After"
proof unfold_locales
  fix g g'
  assume g: "safe_inv g \<and> wg_waiter g \<noteq> Before"
  show "safe_inv g' \<and> wg_waiter g' \<noteq> Before" if st: "group_step adds_first g g'"
    using g safe_inv_step [OF st] waiting_stays [OF st] by simp
  show "wg_work g' < wg_work g" if st: "group_step adds_first g g'"
    using g safe_inv_step [OF st] by (intro wg_work_step [OF st]) (auto simp: safe_inv_def adds_first_def)
  show "\<exists>g'. group_step adds_first g g'" if "wg_waiter g \<noteq> After"
  proof (cases "wg_waiter g = Asleep \<and> wg_w g = 1")
    case True
    with g have "wg_inv g" "\<not> wg_panic g" "wg_waiter g = Asleep" "wg_w g = 1" by (simp_all add: safe_inv_def)
    then obtain g' where "group_step adds_first g g'" by (rule wg_progress)
    then show ?thesis ..
  next
    case False
    with g that consider "wg_waiter g = Asleep" "0 < wg_sema g" | "wg_waiter g = Woken"
      unfolding safe_inv_def wg_inv_def by (cases "wg_waiter g") auto
    then show ?thesis
    proof cases
      case 1
      with g have "group_step adds_first g (g\<lparr>wg_sema := wg_sema g - 1, wg_waiter := Woken\<rparr>)"
        by (intro group_wake) (simp_all add: safe_inv_def)
      then show ?thesis ..
    next
      case 2
      with g have "\<not> wg_panic g" by (simp add: safe_inv_def)
      from group_return [OF this 2, of adds_first] show ?thesis ..
    qed
  qed
qed

lemma wg_reach_safe: "(group_step adds_first)\<^sup>*\<^sup>* wg_init g \<Longrightarrow> safe_inv g"
proof (induction rule: rtranclp_induct)
  case base
  show ?case using wg_init_inv by (simp add: safe_inv_def wg_init_def)
qed (rule safe_inv_step)

lemma all_gone:
  assumes "wg_inv g" and "\<not> wg_panic g" and "wg_v g = 0" and "wg_w g = 0"
  shows "\<forall>p\<in>set (wg_workers g). p = Gone"
proof
  fix p
  assume "p \<in> set (wg_workers g)"
  then have "0 < workers_in p g" by (simp add: workers_in_def)
  with assms show "p = Gone" by (cases p) (auto simp: wg_inv_def)
qed

section \<open>Adding while waiting\<close>

text \<open>Every goroutine can finish and release the waiter before the waiter runs.\<close>

lemma drains_before_wake:
  assumes "wg_inv g" and "\<not> wg_panic g" and "wg_waiter g = Asleep"
  shows "\<exists>g'. (group_step adds)\<^sup>*\<^sup>* g g' \<and> wg_inv g' \<and> \<not> wg_panic g' \<and> wg_waiter g' = Asleep \<and> wg_v g' = 0 \<and> wg_w g' = 0"
  using assms
proof (induction "wg_work g" arbitrary: g rule: less_induct)
  case less
  consider "wg_w g = 0" "wg_v g = 0" | "wg_w g = 1" | "wg_w g = 0" "0 < workers_in Working g"
    using less.prems unfolding wg_inv_def by fastforce
  then show ?case
  proof cases
    case 1
    with less.prems show ?thesis by blast
  next
    case 2
    with less.prems obtain g1 where g1: "group_step adds g g1" "wg_waiter g1 = Asleep" "\<not> wg_panic g1" "wg_work g1 < wg_work g"
      by (rule wg_progress)
    from less.hyps [OF g1(4) wg_inv_step [OF g1(1) less.prems(1)] g1(3,2)] g1(1) show ?thesis
      by (meson converse_rtranclp_into_rtranclp)
  next
    case 3
    then obtain i where i: "i < length (wg_workers g)" "wg_workers g ! i = Working" using worker_obtain by blast
    have st: "group_step adds g (wg_done i g)" using less.prems(2) i by (rule group_done)
    have v: "0 < wg_v g" using 3 less.prems by (simp add: wg_inv_def)
    then have d: "\<not> wg_panic (wg_done i g)" "wg_waiter (wg_done i g) = Asleep" "wg_work (wg_done i g) < wg_work g"
      using less.prems 3 wg_work_upd [OF i, of Gone "wg_done i g"] by (simp_all add: wg_done_def Let_def)
    from less.hyps [OF d(3) wg_inv_step [OF st less.prems(1)] d(1,2)] st show ?thesis
      by (meson converse_rtranclp_into_rtranclp)
  qed
qed

section \<open>Properties\<close>



section \<open>Concrete groups\<close>

text \<open>One goroutine is started, then the waiter waits for it.\<close>

lemma sample_group_waits:
  assumes "adds Before"
  shows "\<exists>g. (group_step adds)\<^sup>*\<^sup>* wg_init g \<and> \<not> wg_panic g \<and> wg_waiter g = Asleep"
proof -
  let ?g = "wg_add wg_init"
  have "group_step adds wg_init ?g" using assms by (intro group_go) (simp_all add: wg_init_def)
  moreover have "group_step adds ?g (?g\<lparr>wg_w := wg_w ?g + 1, wg_waiter := Asleep\<rparr>)"
    using group_wait [of ?g adds] by (simp add: wg_add_def wg_init_def)
  ultimately have "(group_step adds)\<^sup>*\<^sup>* wg_init (?g\<lparr>wg_w := wg_w ?g + 1, wg_waiter := Asleep\<rparr>)"
    by (meson converse_rtranclp_into_rtranclp r_into_rtranclp)
  then show ?thesis by (intro exI conjI) (assumption, simp_all add: wg_add_def wg_init_def)
qed



end
