(* ===== verification/Lifecycle.thy ===== *)
theory Lifecycle
  imports RunServer Shutdown WaitGroup
begin

text \<open>
  The process as a whole: the handler over its life (\<open>life_step\<close>) together with the two servers of \<^verbatim>\<open>run\<close>
  (\<open>run_step\<close>), composed the way \<^verbatim>\<open>run\<close> in \<^verbatim>\<open>src/cmd/auditlog-forwarder/app/app.go\<close> composes them: the hook of the
  audit server calls the handler's \<^verbatim>\<open>Shutdown\<close> with 30 seconds when the server's context is done, and
  \<^verbatim>\<open>srv.Shutdown\<close> is called when that has returned.

  Every run of the composition is a run of either part, so what was shown of the parts holds of the process;
  on top of it the theory shows what they guarantee together. Connections can outlive the function that
  serves them when it fails, so a request may complete as long as \<^verbatim>\<open>run\<close> has not returned. The time
  \<^verbatim>\<open>srv.Shutdown\<close> takes, at most 15 seconds, is up to the environment.
\<close>

section \<open>Steps\<close>

record ('o, 'w) process =
  pr_life :: "('o, 'w) life"
  pr_run :: run_state
  pr_log :: "log_entry list"

definition proc_init :: "'o Handler \<Rightarrow> metrics \<Rightarrow> int \<Rightarrow> fs_world \<Rightarrow> ('o, 'w) process" where
  "proc_init h m now w = \<lparr>pr_life = life_init h m now, pr_run = run_init w, pr_log = []\<rparr>"

definition running :: "('o, 'w) process \<Rightarrow> bool" where
  "running p \<longleftrightarrow> (\<forall>r. rs_main (pr_run p) \<noteq> RunReturned r)"

text \<open>
  The call of the handler's \<^verbatim>\<open>Shutdown\<close> in the hook, what the hook logs when it has returned, and the steps of
  \<open>run\<close> that begin and end the hook.
\<close>

definition hook_begin :: "('o, 'w) life \<Rightarrow> ('o, 'w) life" where
  "hook_begin s = s\<lparr>lf_state := Shutdown_begin (lf_clock s) (30 * Second) (lf_state s),
     lf_phase := Waiting \<lparr>sc_start = lf_clock s, sc_timeout = 30 * Second, sc_mark = hs_next (lf_state s)\<rparr> False\<rparr>"

definition hook_log :: "logger \<Rightarrow> shutdown_phase \<Rightarrow> log_entry list" where
  "hook_log l ph = (case ph of Returned c e \<Rightarrow> snd (audit_hook l e) | _ \<Rightarrow> [])"

definition begins_hook :: "run_state \<Rightarrow> run_state \<Rightarrow> bool" where
  "begins_hook r r' \<longleftrightarrow> rs_phase r AuditServer = Serving \<and> rs_phase r' AuditServer = InHook"

definition ends_hook :: "run_state \<Rightarrow> run_state \<Rightarrow> bool" where
  "ends_hook r r' \<longleftrightarrow> rs_phase r AuditServer = InHook \<and> rs_phase r' AuditServer = Stopping"

datatype cause = ByClock | By actor

inductive proc_step ::
    "('o \<Rightarrow> string) \<Rightarrow> sys_env \<Rightarrow> logger \<Rightarrow> AppConfig \<Rightarrow> cause \<Rightarrow> ('o, 'w) process \<Rightarrow> ('o, 'w) process \<Rightarrow> bool"
  for name env l conf where
  proc_serve: "running p \<Longrightarrow> Op_Name ops = name \<Longrightarrow>
    valid_schedule (guaranteedOutputs (hs_handler (lf_state (pr_life p)))) sched \<Longrightarrow>
    ServeHTTP ops req_id sched rq w (lf_state (pr_life p)) = (w', st') \<Longrightarrow>
    proc_step name env l conf (By ByWorld) p (p\<lparr>pr_life := (pr_life p)\<lparr>lf_state := st'\<rparr>\<rparr>)"
| proc_finish: "running p \<Longrightarrow> Op_Name ops = name \<Longrightarrow> i < length (hs_tasks (lf_state (pr_life p))) \<Longrightarrow>
    mset reports = mset (bestEffortOutputs (hs_handler (lf_state (pr_life p)))) \<Longrightarrow>
    proc_step name env l conf (By ByWorld) p
      (p\<lparr>pr_life := (pr_life p)\<lparr>lf_state := finish_task ops reports i (lf_state (pr_life p))\<rparr>\<rparr>)"
| proc_tick: "running p \<Longrightarrow> 0 < d \<Longrightarrow>
    proc_step name env l conf ByClock p (p\<lparr>pr_life := (pr_life p)\<lparr>lf_clock := lf_clock (pr_life p) + d\<rparr>\<rparr>)"
| proc_waiter: "running p \<Longrightarrow> lf_phase (pr_life p) = Waiting c False \<Longrightarrow>
    bestEffortWg (hs_handler (lf_state (pr_life p))) = 0 \<Longrightarrow>
    proc_step name env l conf (By ByCode) p (p\<lparr>pr_life := (pr_life p)\<lparr>lf_phase := Waiting c True\<rparr>\<rparr>)"
| proc_drained: "running p \<Longrightarrow> lf_phase (pr_life p) = Waiting c True \<Longrightarrow>
    Shutdown_drained (lf_clock (pr_life p)) (lf_state (pr_life p)) = (e, st') \<Longrightarrow>
    proc_step name env l conf (By ByCode) p (p\<lparr>pr_life := (pr_life p)\<lparr>lf_state := st', lf_phase := Returned c e\<rparr>\<rparr>)"
| proc_timeout: "running p \<Longrightarrow> lf_phase (pr_life p) = Waiting c b \<Longrightarrow>
    sc_start c + sint (sc_timeout c) \<le> lf_clock (pr_life p) \<Longrightarrow>
    Shutdown_timeout (lf_clock (pr_life p)) (sc_timeout c) (lf_state (pr_life p)) = (e, st') \<Longrightarrow>
    proc_step name env l conf (By ByCode) p (p\<lparr>pr_life := (pr_life p)\<lparr>lf_state := st', lf_phase := Returned c e\<rparr>\<rparr>)"
| proc_run: "running p \<Longrightarrow> run_step env l conf a (pr_run p) r' \<Longrightarrow>
    (ends_hook (pr_run p) r' \<Longrightarrow> \<exists>c e. lf_phase (pr_life p) = Returned c e) \<Longrightarrow>
    proc_step name env l conf (By a) p
      (p\<lparr>pr_run := r', pr_life := (if begins_hook (pr_run p) r' then hook_begin (pr_life p) else pr_life p),
        pr_log := pr_log p @ (if ends_hook (pr_run p) r' then hook_log (WithName l ''audit-server'') (lf_phase (pr_life p)) else [])\<rparr>)"

definition proc_any ::
    "('o \<Rightarrow> string) \<Rightarrow> sys_env \<Rightarrow> logger \<Rightarrow> AppConfig \<Rightarrow> ('o, 'w) process \<Rightarrow> ('o, 'w) process \<Rightarrow> bool" where
  "proc_any name env l conf p p' \<longleftrightarrow> (\<exists>a. proc_step name env l conf a p p')"

text \<open>The steps that need nobody outside: those of the code and of the clock.\<close>

definition proc_alone ::
    "('o \<Rightarrow> string) \<Rightarrow> sys_env \<Rightarrow> logger \<Rightarrow> AppConfig \<Rightarrow> ('o, 'w) process \<Rightarrow> ('o, 'w) process \<Rightarrow> bool" where
  "proc_alone name env l conf p p' \<longleftrightarrow>
     proc_step name env l conf ByClock p p' \<or> proc_step name env l conf (By ByCode) p p'"

section \<open>The parts of a run\<close>

lemma run_step_hook:
  assumes "run_step env l conf a r r'"
  shows "rs_trace r' = rs_trace r \<or> (\<exists>ev. rs_trace r' = rs_trace r @ [ev] \<and> (ev = HookCalled \<longleftrightarrow> begins_hook r r'))"
    and "begins_hook r r' \<Longrightarrow> rs_trace r' \<noteq> rs_trace r"
    and "rs_phase r AuditServer = InHook \<Longrightarrow> rs_phase r' AuditServer = InHook \<or> ends_hook r r'"
    and "rs_phase r' AuditServer = Serving \<Longrightarrow> rs_phase r AuditServer = Serving"
    and "rs_phase r' AuditServer = InHook \<Longrightarrow> rs_phase r AuditServer = InHook \<or> begins_hook r r'"
  using assms
  by (cases rule: run_step.cases;
      auto simp: begins_hook_def ends_hook_def after_ctx_done_def split: server_id.splits if_splits)+

lemma proc_step_run:
  assumes "proc_step name env l conf a p p'"
  shows "pr_run p' = pr_run p \<or> run_any env l conf (pr_run p) (pr_run p')"
  using assms by cases (auto simp: run_any_def)

section \<open>Invariant\<close>

definition hook_ok :: "('o, 'w) process \<Rightarrow> bool" where
  "hook_ok p \<longleftrightarrow>
     (case lf_phase (pr_life p) of
        NotCalled \<Rightarrow> HookCalled \<notin> set (rs_trace (pr_run p))
      | Waiting c b \<Rightarrow> HookCalled \<in> set (rs_trace (pr_run p)) \<and> rs_phase (pr_run p) AuditServer = InHook
          \<and> sc_timeout c = 30 * Second \<and> sc_start c \<le> lf_clock (pr_life p)
      | Returned c e \<Rightarrow> HookCalled \<in> set (rs_trace (pr_run p)) \<and> rs_phase (pr_run p) AuditServer \<noteq> Serving
          \<and> sc_timeout c = 30 * Second \<and> sc_start c \<le> lf_clock (pr_life p))"

definition proc_inv ::
    "('o \<Rightarrow> string) \<Rightarrow> sys_env \<Rightarrow> logger \<Rightarrow> AppConfig \<Rightarrow> fs_world \<Rightarrow> 'o list \<Rightarrow> metrics \<Rightarrow> ('o, 'w) process \<Rightarrow> bool" where
  "proc_inv name env l conf w bs m p \<longleftrightarrow>
     run_inv env l conf w (pr_run p) \<and> life_inv name bs m (pr_life p) \<and> hook_ok p"

lemma hook_ok_run_step:
  assumes st: "run_step env l conf a (pr_run p) r'" and ok: "hook_ok p"
    and "ends_hook (pr_run p) r' \<Longrightarrow> \<exists>c e. lf_phase (pr_life p) = Returned c e"
  shows "hook_ok (p\<lparr>pr_run := r', pr_life := (if begins_hook (pr_run p) r' then hook_begin (pr_life p) else pr_life p),
    pr_log := lg\<rparr>)"
proof -
  note h = run_step_hook [OF st]
  have sub: "set (rs_trace (pr_run p)) \<subseteq> set (rs_trace r')" using h(1) by auto
  show ?thesis
  proof (cases "begins_hook (pr_run p) r'")
    case True
    then have "HookCalled \<in> set (rs_trace r')" "rs_phase r' AuditServer = InHook"
      using h(1,2) by (auto simp: begins_hook_def)
    with True show ?thesis by (simp add: hook_ok_def hook_begin_def)
  next
    case False
    show ?thesis
    proof (cases "lf_phase (pr_life p)")
      case NotCalled
      with False ok h(1) show ?thesis by (auto simp: hook_ok_def)
    next
      case (Waiting c b)
      with False ok sub h(3) assms(3) show ?thesis by (auto simp: hook_ok_def)
    next
      case (Returned c e)
      with False ok sub h(4) show ?thesis by (auto simp: hook_ok_def)
    qed
  qed
qed

text \<open>A step of the process is, seen from the handler, a step of its life or none.\<close>

lemma proc_step_life:
  assumes "proc_step name env l conf a p p'" and "run_inv env l conf w (pr_run p)" and "hook_ok p"
  shows "pr_life p' = pr_life p \<or> life_step name (pr_life p) (pr_life p')"
  using assms(1)
proof cases
  case (proc_serve ops sched req_id rq w w' st')
  then show ?thesis using life_step.life_serve by fastforce
next
  case (proc_finish ops i reports)
  then show ?thesis using life_step.life_finish by fastforce
next
  case (proc_tick d)
  then show ?thesis using life_step.life_tick by fastforce
next
  case (proc_waiter c)
  then show ?thesis using life_step.life_waiter by fastforce
next
  case (proc_drained c e st')
  then show ?thesis using life_step.life_drained by fastforce
next
  case (proc_timeout c b e st')
  then show ?thesis using life_step.life_timeout by fastforce
next
  case (proc_run a r')
  show ?thesis
  proof (cases "begins_hook (pr_run p) r'")
    case True
    then have "lf_phase (pr_life p) = NotCalled"
      using assms(3) by (auto simp: begins_hook_def hook_ok_def split: shutdown_phase.splits)
    with life_step.life_shutdown [of "pr_life p" name "30 * Second"] proc_run True show ?thesis
      by (simp add: hook_begin_def)
  qed (use proc_run in simp)
qed

lemma proc_init_inv:
  assumes "NewHandler l0 ps gs bs = Inr h"
  shows "proc_inv name env l conf w bs m (proc_init h m now w)"
  using life_inv_init [OF assms] run_init_inv
  by (simp add: proc_inv_def proc_init_def hook_ok_def life_init_def run_init_def)

lemma proc_inv_step:
  assumes st: "proc_step name env l conf a p p'" and inv: "proc_inv name env l conf w bs m p"
  shows "proc_inv name env l conf w bs m p'"
proof -
  have parts: "run_inv env l conf w (pr_run p)" "life_inv name bs m (pr_life p)" "hook_ok p"
    using inv by (simp_all add: proc_inv_def)
  have "run_inv env l conf w (pr_run p')"
    using proc_step_run [OF st] parts(1) by (auto simp: run_any_def intro: run_inv_step)
  moreover have "life_inv name bs m (pr_life p')"
    using proc_step_life [OF st parts(1,3)] parts(2) by (auto intro: life_inv_step)
  moreover have "hook_ok p'"
    using st
  proof cases
    case (proc_run a r')
    with hook_ok_run_step [OF _ parts(3)] show ?thesis by blast
  qed (use parts(3) in \<open>auto simp: hook_ok_def split: shutdown_phase.splits\<close>)
  ultimately show ?thesis by (simp add: proc_inv_def)
qed

lemma proc_reach_inv:
  assumes "NewHandler l0 ps gs bs = Inr h" and "(proc_any name env l conf)\<^sup>*\<^sup>* (proc_init h m now w) p"
  shows "proc_inv name env l conf w bs m p"
  using assms(2)
  by (induction rule: rtranclp_induct) (auto simp: proc_any_def intro: proc_init_inv [OF assms(1)] proc_inv_step)

section \<open>Completing a run\<close>

text \<open>
  Once the audit server has left its loop and the handler's \<^verbatim>\<open>Shutdown\<close> is not waiting, every step of \<open>run\<close> is a
  step of the process that leaves the handler alone.
\<close>

definition settled :: "('o, 'w) process \<Rightarrow> bool" where
  "settled p \<longleftrightarrow> rs_phase (pr_run p) AuditServer \<noteq> Serving
     \<and> (rs_phase (pr_run p) AuditServer = InHook \<longrightarrow> (\<exists>c e. lf_phase (pr_life p) = Returned c e))"

lemma settled_lift:
  assumes "run_step env l conf ByCode (pr_run p) r'" and "settled p" and "running p"
  shows "\<exists>p'. proc_alone name env l conf p p' \<and> settled p' \<and> pr_run p' = r' \<and> pr_life p' = pr_life p"
proof -
  have b: "\<not> begins_hook (pr_run p) r'" using assms(2) by (simp add: begins_hook_def settled_def)
  have e: "\<exists>c e. lf_phase (pr_life p) = Returned c e" if "ends_hook (pr_run p) r'"
    using that assms(2) by (simp add: ends_hook_def settled_def)
  have "\<exists>p'. proc_step name env l conf (By ByCode) p p' \<and> pr_run p' = r' \<and> pr_life p' = pr_life p"
    by (rule exI, rule conjI [OF proc_run [OF assms(3,1) e]]) (use b in simp_all)
  moreover have "settled p'" if "pr_run p' = r'" "pr_life p' = pr_life p" for p' :: "('a, 'b) process"
    using that assms(2) b run_step_hook(4,5) [OF assms(1)] by (auto simp: settled_def)
  ultimately show ?thesis unfolding proc_alone_def by blast
qed

lemma settled_completes:
  assumes "run_inv env l conf w (pr_run p)" and "settled p"
  shows "\<exists>p' ret. (proc_alone name env l conf)\<^sup>*\<^sup>* p p' \<and> pr_life p' = pr_life p \<and> rs_main (pr_run p') = RunReturned ret"
  using assms
proof (induction "run_left (pr_run p)" arbitrary: p rule: less_induct)
  case less
  show ?case
  proof (cases "running p")
    case False
    then show ?thesis by (intro exI [of _ p]) (auto simp: running_def)
  next
    case True
    have "rs_ctx (pr_run p) \<or> (\<exists>x. rs_phase (pr_run p) x \<noteq> Serving)" using less.prems(2) by (auto simp: settled_def)
    with run_progress [OF less.prems(1)] True obtain r' where r': "run_step env l conf ByCode (pr_run p) r'"
      by (auto simp: running_def)
    obtain p1 where p1: "proc_alone name env l conf p p1" "settled p1" "pr_run p1 = r'" "pr_life p1 = pr_life p"
      using settled_lift [OF r' less.prems(2) True] by blast
    have "\<exists>p' ret. (proc_alone name env l conf)\<^sup>*\<^sup>* p1 p' \<and> pr_life p' = pr_life p1 \<and> rs_main (pr_run p') = RunReturned ret"
      using less.hyps [of p1] run_left_step [OF r'] run_inv_step [OF r' less.prems(1)] p1(2,3) by simp
    with p1(1,4) show ?thesis by (metis converse_rtranclp_into_rtranclp)
  qed
qed

text \<open>Waiting in the handler's \<^verbatim>\<open>Shutdown\<close> is ended by the clock alone.\<close>

lemma waiting_ends:
  assumes "lf_phase (pr_life p) = Waiting c b" and "running p"
  shows "\<exists>p' e. (proc_alone name env l conf)\<^sup>*\<^sup>* p p' \<and> pr_run p' = pr_run p \<and> lf_phase (pr_life p') = Returned c e
    \<and> lf_clock (pr_life p') \<le> max (lf_clock (pr_life p) + 1) (sc_start c + sint (sc_timeout c))"
proof -
  let ?d = "max 1 (sc_start c + sint (sc_timeout c) - lf_clock (pr_life p))"
  let ?p = "p\<lparr>pr_life := (pr_life p)\<lparr>lf_clock := lf_clock (pr_life p) + ?d\<rparr>\<rparr>"
  obtain e st' where t: "Shutdown_timeout (lf_clock (pr_life ?p)) (sc_timeout c) (lf_state (pr_life ?p)) = (e, st')"
    by fastforce
  let ?p2 = "?p\<lparr>pr_life := (pr_life ?p)\<lparr>lf_state := st', lf_phase := Returned c e\<rparr>\<rparr>"
  have "running ?p" using assms(2) by (simp add: running_def)
  have "proc_alone name env l conf p ?p"
    unfolding proc_alone_def by (intro disjI1 proc_tick assms(2)) simp
  moreover have "proc_alone name env l conf ?p ?p2"
    unfolding proc_alone_def using \<open>running ?p\<close> assms(1) t by (intro disjI2 proc_timeout) auto
  ultimately have "(proc_alone name env l conf)\<^sup>*\<^sup>* p ?p2"
    by (rule converse_rtranclp_into_rtranclp [OF _ r_into_rtranclp])
  then show ?thesis by (intro exI [of _ ?p2] exI [of _ e]) simp
qed

lemma hook_starts:
  assumes "rs_phase (pr_run p) AuditServer = Serving" and "rs_ctx (pr_run p)" and "running p"
  shows "\<exists>r'. proc_alone name env l conf p (p\<lparr>pr_run := r', pr_life := hook_begin (pr_life p)\<rparr>)
    \<and> rs_phase r' AuditServer = InHook"
proof -
  let ?r = "(pr_run p)\<lparr>rs_phase := (rs_phase (pr_run p))(AuditServer := InHook), rs_trace := rs_trace (pr_run p) @ [HookCalled]\<rparr>"
  have "run_step env l conf ByCode (pr_run p) ?r"
    using run_ctx_done [OF assms(1), of env l conf] assms(2) by (simp add: after_ctx_done_def)
  moreover have "begins_hook (pr_run p) ?r" "\<not> ends_hook (pr_run p) ?r"
    using assms(1) by (simp_all add: begins_hook_def ends_hook_def)
  ultimately have "proc_step name env l conf (By ByCode) p (p\<lparr>pr_run := ?r, pr_life := hook_begin (pr_life p)\<rparr>)"
    using proc_run [OF assms(3), of env l conf ByCode ?r name] by simp
  then show ?thesis by (intro exI [of _ ?r]) (simp add: proc_alone_def)
qed

lemma alone_any: "(proc_alone name env l conf)\<^sup>*\<^sup>* p p' \<Longrightarrow> (proc_any name env l conf)\<^sup>*\<^sup>* p p'"
  by (rule rtranclp_mono [THEN predicate2D]) (auto simp: proc_alone_def proc_any_def)

text \<open>From any state in which the audit server is shut down by its hook.\<close>

lemma hook_completes:
  assumes "proc_inv name env l conf w bs m p" and "rs_phase (pr_run p) AuditServer \<noteq> Serving"
  shows "\<exists>p' ret. (proc_alone name env l conf)\<^sup>*\<^sup>* p p' \<and> rs_main (pr_run p') = RunReturned ret
    \<and> lf_clock (pr_life p') \<le> lf_clock (pr_life p) + sint (30 * Second)"
proof -
  have inv: "run_inv env l conf w (pr_run p)" "hook_ok p" using assms(1) by (simp_all add: proc_inv_def)
  show ?thesis
  proof (cases "settled p")
    case True
    from settled_completes [OF inv(1) True, of name] obtain p' ret where
      "(proc_alone name env l conf)\<^sup>*\<^sup>* p p'" "pr_life p' = pr_life p" "rs_main (pr_run p') = RunReturned ret" by blast
    then show ?thesis by (intro exI [of _ p'] exI [of _ ret]) simp
  next
    case False
    then have h: "rs_phase (pr_run p) AuditServer = InHook" "\<nexists>c e. lf_phase (pr_life p) = Returned c e"
      using assms(2) by (auto simp: settled_def)
    then have "HookCalled \<in> set (rs_trace (pr_run p))" using inv(1) by (simp add: run_inv_def)
    with h(2) inv(2) obtain c b where c: "lf_phase (pr_life p) = Waiting c b" "sc_timeout c = 30 * Second"
      "sc_start c \<le> lf_clock (pr_life p)"
      by (auto simp: hook_ok_def split: shutdown_phase.splits)
    have run: "running p"
      using run_inv_not_returned [OF inv(1), of AuditServer] h(1) by (simp add: running_def handed_over_def)
    from waiting_ends [OF c(1) run, of name env l conf] obtain p1 e where p1:
      "(proc_alone name env l conf)\<^sup>*\<^sup>* p p1" "pr_run p1 = pr_run p" "lf_phase (pr_life p1) = Returned c e"
      "lf_clock (pr_life p1) \<le> max (lf_clock (pr_life p) + 1) (sc_start c + sint (sc_timeout c))" by blast
    have "settled p1" using p1(2,3) h(1) by (simp add: settled_def)
    with settled_completes [of env l conf w p1 name] inv(1) p1(2) obtain p' ret where
      "(proc_alone name env l conf)\<^sup>*\<^sup>* p1 p'" "pr_life p' = pr_life p1" "rs_main (pr_run p') = RunReturned ret" by auto
    with p1 c show ?thesis by (intro exI [of _ p'] exI [of _ ret]) auto
  qed
qed

section \<open>Properties\<close>

text \<open>
  The process refines its two parts: every run of the process is a run of the handler's life and a run
  of the two servers. So the accounting of best-effort sends, the order of shutting down and the release of
  resources, shown for the parts, hold of the process.
\<close>

lemma process_refines_parts:
  assumes "NewHandler l0 ps gs bs = Inr h" and "(proc_any name env l conf)\<^sup>*\<^sup>* (proc_init h m now w) p"
  shows "(life_step name)\<^sup>*\<^sup>* (life_init h m now) (pr_life p) \<and> (run_any env l conf)\<^sup>*\<^sup>* (run_init w) (pr_run p)"
  using assms(2)
proof (induction rule: rtranclp_induct)
  case base
  show ?case by (simp add: proc_init_def)
next
  case (step p p')
  then obtain a where a: "proc_step name env l conf a p p'" by (auto simp: proc_any_def)
  have "proc_inv name env l conf w bs m p" using assms(1) step.hyps(1) by (rule proc_reach_inv)
  with proc_step_life [OF a] have "pr_life p' = pr_life p \<or> life_step name (pr_life p) (pr_life p')"
    by (auto simp: proc_inv_def)
  with step.IH proc_step_run [OF a] show ?case by (metis rtranclp.rtrancl_into_rtrancl)
qed


text \<open>
  Property C16. The process stops: from any state in which its context is cancelled or the audit server has left its
  loop, the code and the clock alone make \<^verbatim>\<open>run\<close> return, within the 30 seconds the handler may wait (and the time
  \<^verbatim>\<open>srv.Shutdown\<close> takes), whatever the best-effort sends do.
\<close>

theorem process_stops:
  assumes "NewHandler l0 ps gs bs = Inr h" and "(proc_any name env l conf)\<^sup>*\<^sup>* (proc_init h m now w) p"
    and "rs_ctx (pr_run p) \<or> rs_phase (pr_run p) AuditServer \<noteq> Serving"
  shows "\<exists>p' ret. (proc_alone name env l conf)\<^sup>*\<^sup>* p p' \<and> rs_main (pr_run p') = RunReturned ret
    \<and> lf_clock (pr_life p') \<le> lf_clock (pr_life p) + sint (30 * Second)"
proof (cases "rs_phase (pr_run p) AuditServer = Serving")
  case False
  with hook_completes [OF proc_reach_inv [OF assms(1,2)]] show ?thesis by blast
next
  case True
  have inv: "proc_inv name env l conf w bs m p" using assms(1,2) by (rule proc_reach_inv)
  then have run: "running p"
    using run_inv_not_returned [of env l conf w "pr_run p" AuditServer] True
    by (simp add: proc_inv_def running_def handed_over_def)
  obtain r' where r': "proc_alone name env l conf p (p\<lparr>pr_run := r', pr_life := hook_begin (pr_life p)\<rparr>)"
      "rs_phase r' AuditServer = InHook"
    using hook_starts [OF True _ run, of name env l conf] assms(3) True by blast
  let ?p = "p\<lparr>pr_run := r', pr_life := hook_begin (pr_life p)\<rparr>"
  have "proc_inv name env l conf w bs m ?p"
    using r'(1) inv by (auto simp: proc_alone_def intro: proc_inv_step)
  from hook_completes [OF this] r'(2) obtain p' ret where "(proc_alone name env l conf)\<^sup>*\<^sup>* ?p p'"
    "rs_main (pr_run p') = RunReturned ret" "lf_clock (pr_life p') \<le> lf_clock (pr_life ?p) + sint (30 * Second)" by auto
  with r'(1) show ?thesis by (auto simp: hook_begin_def intro: converse_rtranclp_into_rtranclp)
qed

text \<open>The listener of the audit server has returned \<open>e\<close>, and \<^verbatim>\<open>runServer\<close> has left its \<^verbatim>\<open>select\<close> with it.\<close>

definition listener_failed :: "go_error \<Rightarrow> ('o, 'w) process \<Rightarrow> ('o, 'w) process" where
  "listener_failed e p = p\<lparr>pr_run := (pr_run p)
     \<lparr>rs_phase := (rs_phase (pr_run p))(AuditServer := Sending (listen_result (Some e)))\<rparr>\<rparr>"

text \<open>
  Property C37. A failing listener skips the graceful shutdown: from any state in which the audit server is serving,
  its listener may fail, and then \<^verbatim>\<open>run\<close> can return, with the outputs closed, without \<^verbatim>\<open>Shutdown\<close> of the handler
  having been called and with every best-effort goroutine still running; the process exits and their data is
  lost although nothing was timed out.
\<close>

theorem listener_failure_skips_shutdown:
  assumes "NewHandler l0 ps gs bs = Inr h" and "(proc_any name env l conf)\<^sup>*\<^sup>* (proc_init h m now w) p"
    and "rs_phase (pr_run p) AuditServer = Serving"
  shows "proc_step name env l conf (By ByWorld) p (listener_failed e p)
    \<and> (\<exists>p' ret. (proc_alone name env l conf)\<^sup>*\<^sup>* (listener_failed e p) p' \<and> rs_main (pr_run p') = RunReturned ret
         \<and> rs_world (pr_run p') = closed_world env l conf w \<and> HookCalled \<notin> set (rs_trace (pr_run p'))
         \<and> hs_tasks (lf_state (pr_life p')) = hs_tasks (lf_state (pr_life p)))"
proof -
  have inv: "run_inv env l conf w (pr_run p)" "hook_ok p" using proc_reach_inv [OF assms(1,2)] by (simp_all add: proc_inv_def)
  then have run: "running p"
    using run_inv_not_returned [OF inv(1), of AuditServer] assms(3) by (simp add: running_def handed_over_def)
  have nc: "lf_phase (pr_life p) = NotCalled"
    using inv(2) assms(3) by (auto simp: hook_ok_def split: shutdown_phase.splits)
  have st: "run_step env l conf ByWorld (pr_run p) (pr_run (listener_failed e p))"
    using run_listen [OF assms(3)] by (simp add: listener_failed_def)
  have step: "proc_step name env l conf (By ByWorld) p (listener_failed e p)"
    using proc_run [OF run st, of name] by (simp add: begins_hook_def ends_hook_def listener_failed_def)
  obtain p' ret where p': "(proc_alone name env l conf)\<^sup>*\<^sup>* (listener_failed e p) p'"
      "pr_life p' = pr_life p" "rs_main (pr_run p') = RunReturned ret"
    using settled_completes [of env l conf w "listener_failed e p" name] run_inv_step [OF st inv(1)]
    by (auto simp: settled_def listener_failed_def)
  have "(proc_any name env l conf)\<^sup>*\<^sup>* (proc_init h m now w) p'"
    using assms(2) step alone_any [OF p'(1)] by (meson proc_any_def rtranclp.rtrancl_into_rtrancl rtranclp_trans)
  from proc_reach_inv [OF assms(1) this] p'(2,3) nc
  have "rs_world (pr_run p') = closed_world env l conf w" "HookCalled \<notin> set (rs_trace (pr_run p'))"
    by (simp_all add: proc_inv_def run_inv_def hook_ok_def)
  with step p' nc show ?thesis by auto
qed

section \<open>Requests during the shutdown\<close>

text \<open>
  The handler's wait group is used as \<^const>\<open>adds_always\<close> says: while \<^verbatim>\<open>Shutdown\<close> waits in the hook, a request that
  can be served is served and starts another best-effort goroutine.
\<close>

lemma requests_while_waiting:
  fixes p :: "('o, 'w) process" and ops :: "('o, 'w) output_ops"
  assumes "running p" and "lf_phase (pr_life p) = Waiting c b"
    and "valid_schedule (guaranteedOutputs (hs_handler (lf_state (pr_life p)))) sched"
    and "request_ok ops (hs_handler (lf_state (pr_life p))) req_id rq"
    and "bestEffortOutputs (hs_handler (lf_state (pr_life p))) \<noteq> []"
  shows "\<exists>p'. proc_step (Op_Name ops) env l conf (By ByWorld) p p' \<and> lf_phase (pr_life p') = Waiting c b
    \<and> bestEffortWg (hs_handler (lf_state (pr_life p'))) = bestEffortWg (hs_handler (lf_state (pr_life p))) + 1"
proof -
  obtain w' st' where s: "ServeHTTP ops req_id sched rq undefined (lf_state (pr_life p)) = (w', st')" by fastforce
  from s assms(3) have "bestEffortWg (hs_handler st') = bestEffortWg (hs_handler (lf_state (pr_life p))) + 1"
    by (cases rule: ServeHTTP_E) (use assms(4,5) in \<open>simp_all add: serve_simps\<close>)
  with proc_serve [OF assms(1) refl assms(3) s, of env l conf] assms(2) show ?thesis 
    by (intro exI [of _ "p\<lparr>pr_life := (pr_life p)\<lparr>lf_state := st'\<rparr>\<rparr>"]) simp
qed

section \<open>A concrete process\<close>

abbreviation sample_process :: "(string, unit) process" where
  "sample_process \<equiv> proc_init sample_life_handler no_metrics 0 empty_world"

abbreviation sample_proc_any :: "(string, unit) process \<Rightarrow> (string, unit) process \<Rightarrow> bool" where
  "sample_proc_any \<equiv> proc_any (\<lambda>out. out) sample_env Discard empty_AppConfig"

text \<open>The process gets a signal and the hook of its audit server is called.\<close>

lemma sample_process_signal:
  "sample_proc_any sample_process (sample_process\<lparr>pr_run := (run_init empty_world)\<lparr>rs_ctx := True\<rparr>\<rparr>)"
proof -
  let ?r = "(run_init empty_world)\<lparr>rs_ctx := True\<rparr>"
  have "run_step sample_env Discard empty_AppConfig ByWorld (pr_run sample_process) ?r"
    using run_signal [of "run_init empty_world"] by (simp add: proc_init_def run_init_def)
  moreover have "running sample_process" "\<not> begins_hook (pr_run sample_process) ?r" "\<not> ends_hook (pr_run sample_process) ?r"
    by (simp_all add: running_def proc_init_def run_init_def begins_hook_def ends_hook_def)
  ultimately have "proc_step (\<lambda>out. out) sample_env Discard empty_AppConfig (By ByWorld) sample_process (sample_process\<lparr>pr_run := ?r\<rparr>)"
    using proc_run [of sample_process sample_env Discard empty_AppConfig ByWorld ?r "\<lambda>out. out"] by simp
  then show ?thesis unfolding proc_any_def by (rule exI)
qed

lemma proc_trace_grows:
  assumes "(proc_any name env l conf)\<^sup>*\<^sup>* p p'"
  shows "set (rs_trace (pr_run p)) \<subseteq> set (rs_trace (pr_run p'))"
  using assms
proof (induction rule: rtranclp_induct)
  case (step p' p'')
  then obtain a where "proc_step name env l conf a p' p''" by (auto simp: proc_any_def)
  then have "set (rs_trace (pr_run p')) \<subseteq> set (rs_trace (pr_run p''))"
    by cases (use run_step_hook(1) in fastforce)+
  with step.IH show ?case by simp
qed simp

lemma sample_process_run:
  "\<exists>p. sample_proc_any\<^sup>*\<^sup>* sample_process p \<and> HookCalled \<in> set (rs_trace (pr_run p)) \<and> OutputsClosed \<in> set (rs_trace (pr_run p))"
proof -
  let ?p = "sample_process\<lparr>pr_run := (run_init empty_world)\<lparr>rs_ctx := True\<rparr>\<rparr>"
  obtain r' where r': "proc_alone (\<lambda>out. out) sample_env Discard empty_AppConfig ?p
      (?p\<lparr>pr_run := r', pr_life := hook_begin (pr_life ?p)\<rparr>)" "rs_phase r' AuditServer = InHook"
    using hook_starts [of ?p "\<lambda>out. out" sample_env Discard empty_AppConfig] by (auto simp: run_init_def running_def)
  let ?p1 = "?p\<lparr>pr_run := r', pr_life := hook_begin (pr_life ?p)\<rparr>"
  have p1: "sample_proc_any\<^sup>*\<^sup>* sample_process ?p1"
    by (rule converse_rtranclp_into_rtranclp [of sample_proc_any, OF sample_process_signal alone_any])
      (rule r_into_rtranclp [of "proc_alone (\<lambda>out. out) sample_env Discard empty_AppConfig", OF r'(1)])
  from proc_reach_inv [OF sample_life_handler this]
  have inv: "proc_inv (\<lambda>out. out) sample_env Discard empty_AppConfig empty_world [''c''] no_metrics ?p1" .
  from hook_completes [OF inv] r'(2) obtain p' ret where
    p': "(proc_alone (\<lambda>out. out) sample_env Discard empty_AppConfig)\<^sup>*\<^sup>* ?p1 p'" "rs_main (pr_run p') = RunReturned ret"
    by auto
  have reach: "sample_proc_any\<^sup>*\<^sup>* sample_process p'" using p1 alone_any [OF p'(1)] by (rule rtranclp_trans)
  have "OutputsClosed \<in> set (rs_trace (pr_run p'))"
    using proc_reach_inv [OF sample_life_handler reach] p'(2) by (simp add: proc_inv_def run_inv_def)
  moreover have "HookCalled \<in> set (rs_trace (pr_run ?p1))" using inv r'(2) by (simp add: proc_inv_def run_inv_def)
  with proc_trace_grows [OF alone_any [OF p'(1)]] have "HookCalled \<in> set (rs_trace (pr_run p'))" by blast
  ultimately show ?thesis using reach by blast
qed

theorem process_refines_parts_witness:
  "\<exists>p. sample_proc_any\<^sup>*\<^sup>* sample_process p \<and> HookCalled \<in> set (rs_trace (pr_run p))
     \<and> (life_step (\<lambda>out. out))\<^sup>*\<^sup>* sample_life (pr_life p)"
  using sample_process_run process_refines_parts [OF sample_life_handler] by blast


theorem process_stops_witness:
  "\<exists>p' ret. (proc_alone (\<lambda>out. out) sample_env Discard empty_AppConfig)\<^sup>*\<^sup>*
      (sample_process\<lparr>pr_run := (run_init empty_world)\<lparr>rs_ctx := True\<rparr>\<rparr>) p'
    \<and> rs_main (pr_run p') = RunReturned ret \<and> lf_clock (pr_life p') \<le> 30000000000"
  using process_stops [OF sample_life_handler r_into_rtranclp [of sample_proc_any, OF sample_process_signal]]
  by (simp add: proc_init_def life_init_def)

theorem listener_failure_skips_shutdown_witness:
  "\<exists>p' ret. (proc_alone (\<lambda>out. out) sample_env Discard empty_AppConfig)\<^sup>*\<^sup>*
      (listener_failed (Errors_New ''accept: too many open files'') sample_process) p'
    \<and> rs_main (pr_run p') = RunReturned ret \<and> HookCalled \<notin> set (rs_trace (pr_run p'))"
proof -
  have "rs_phase (pr_run sample_process) AuditServer = Serving" by (simp add: proc_init_def run_init_def)
  from listener_failure_skips_shutdown [OF sample_life_handler rtranclp.rtrancl_refl this] show ?thesis by blast
qed

end
