(* ===== verification/Scheme.thy ===== *)
theory Scheme
  imports Options
begin

text \<open>
  Registration of the configuration type, \<^verbatim>\<open>src/pkg/apis/config/v1alpha1/register.go\<close> with the generated
  \<^verbatim>\<open>RegisterDefaults\<close>, and the package initialisation of \<^verbatim>\<open>options.go\<close> that builds the configuration decoder.

  Schemes, scheme builders and codecs belong to k8s.io/apimachinery and are the record \<open>apimachinery\<close>, over a
  type of schemes and one of builders. Package variables are explicit state: \<open>AddToScheme\<close> is a method value bound
  to the address of \<open>schemeBuilder\<close> before \<^verbatim>\<open>init\<close> has registered anything, so that it reads the builder when it is
  called. What the code relies on is \<open>scheme_laws\<close>, the documented behaviour of the library.
\<close>

section \<open>The library's operations\<close>

record GroupVersion =
  gv_Group :: string
  gv_Version :: string

type_synonym 's scheme_func = "'s \<Rightarrow> (err \<times> 's) go_outcome"

text \<open>
  A type is known by its Go name. The last two fields observe a scheme: the types it knows under a group version
  and the defaulting function it has for a type.
\<close>

record ('s, 'b) apimachinery =
  am_NewScheme :: 's
  am_AddKnownTypes :: "GroupVersion \<Rightarrow> string list \<Rightarrow> 's \<Rightarrow> 's go_outcome"
  am_AddTypeDefaultingFunc :: "string \<Rightarrow> (AuditlogForwarder \<Rightarrow> AuditlogForwarder) \<Rightarrow> 's \<Rightarrow> 's"
  am_nilBuilder :: 'b
  am_Register :: "'s scheme_func list \<Rightarrow> 'b \<Rightarrow> 'b"
  am_AddToScheme :: "'b \<Rightarrow> 's scheme_func"
  am_Must :: "err \<Rightarrow> unit go_outcome"
  am_DecodeInto :: "'s \<Rightarrow> bytes \<Rightarrow> err \<times> AuditlogForwarder"
  am_recognizes :: "'s \<Rightarrow> GroupVersion \<Rightarrow> string \<Rightarrow> bool"
  am_defaulter :: "'s \<Rightarrow> string \<Rightarrow> (AuditlogForwarder \<Rightarrow> AuditlogForwarder) option"

section \<open>register.go\<close>

definition GroupName :: string where
  "GroupName = ''config.auditlog-forwarder.gardener.cloud''"

definition SchemeGroupVersion :: GroupVersion where
  "SchemeGroupVersion = \<lparr>gv_Group = GroupName, gv_Version = ''v1alpha1''\<rparr>"

definition RegisterDefaults :: "('s, 'b) apimachinery \<Rightarrow> 's scheme_func" where
  "RegisterDefaults lib scheme =
     (let scheme = am_AddTypeDefaultingFunc lib ''AuditlogForwarder'' SetObjectDefaults_AuditlogForwarder scheme
      in Return (None, scheme))"

definition addKnownTypes :: "('s, 'b) apimachinery \<Rightarrow> 's scheme_func" where
  "addKnownTypes lib scheme =
     (case am_AddKnownTypes lib SchemeGroupVersion [''AuditlogForwarder''] scheme of
        Panic \<Rightarrow> Panic
      | Return scheme \<Rightarrow> Return (None, scheme))"

definition addDefaultingFuncs :: "('s, 'b) apimachinery \<Rightarrow> 's scheme_func" where
  "addDefaultingFuncs lib scheme = RegisterDefaults lib scheme"

text \<open>The package's variable, its initial value, \<^verbatim>\<open>init\<close>, and the method value \<^verbatim>\<open>AddToScheme\<close>.\<close>

record 'b config_package =
  schemeBuilder :: 'b

definition config_vars :: "('s, 'b) apimachinery \<Rightarrow> 'b config_package" where
  "config_vars lib = \<lparr>schemeBuilder = am_nilBuilder lib\<rparr>"

definition config_init :: "('s, 'b) apimachinery \<Rightarrow> 'b config_package \<Rightarrow> 'b config_package" where
  "config_init lib pkg =
     pkg\<lparr>schemeBuilder := am_Register lib [addDefaultingFuncs lib, addKnownTypes lib] (schemeBuilder pkg)\<rparr>"

definition AddToScheme :: "('s, 'b) apimachinery \<Rightarrow> 'b config_package \<Rightarrow> 's scheme_func" where
  "AddToScheme lib pkg = am_AddToScheme lib (schemeBuilder pkg)"

section \<open>Initialisation of the options package\<close>

text \<open>
  The \<^verbatim>\<open>init\<close> of \<^verbatim>\<open>options.go\<close>, given the configuration package as it is then: the scheme of the decoder it
  leaves in \<^verbatim>\<open>configDecoder\<close>, and that decoder. Imported packages are initialised first.
\<close>

definition options_init :: "('s, 'b) apimachinery \<Rightarrow> 'b config_package \<Rightarrow> 's go_outcome" where
  "options_init lib pkg =
     (case AddToScheme lib pkg (am_NewScheme lib) of
        Panic \<Rightarrow> Panic
      | Return (e, configScheme) \<Rightarrow>
          (case am_Must lib e of
             Panic \<Rightarrow> Panic
           | Return _ \<Rightarrow> Return configScheme))"

definition start_packages :: "('s, 'b) apimachinery \<Rightarrow> 's go_outcome" where
  "start_packages lib = options_init lib (config_init lib (config_vars lib))"

section \<open>What the library documents\<close>

text \<open>\<^verbatim>\<open>AddToScheme\<close> applies the stored functions in the order of registration and stops at the first error.\<close>

fun run_setup :: "'s scheme_func list \<Rightarrow> 's scheme_func" where
  "run_setup [] s = Return (None, s)"
| "run_setup (f # fs) s =
     (case f s of
        Panic \<Rightarrow> Panic
      | Return (Some e, s) \<Rightarrow> Return (Some e, s)
      | Return (None, s) \<Rightarrow> run_setup fs s)"

definition builder_laws :: "('s, 'b) apimachinery \<Rightarrow> bool" where
  "builder_laws lib \<longleftrightarrow> (\<forall>fs. am_AddToScheme lib (am_Register lib fs (am_nilBuilder lib)) = run_setup fs)
     \<and> (\<forall>e. am_Must lib e = (if e = None then Return () else Panic))"

text \<open>
  A new scheme knows nothing; registering a defaulting function replaces the one of its type; registering types
  panics without a version and adds them otherwise, where none of them is known yet; a successful decoding has
  applied the defaulting function of the type.
\<close>

definition registry_laws :: "('s, 'b) apimachinery \<Rightarrow> bool" where
  "registry_laws lib \<longleftrightarrow>
     (\<forall>gv t. \<not> am_recognizes lib (am_NewScheme lib) gv t)
   \<and> (\<forall>t. am_defaulter lib (am_NewScheme lib) t = None)
   \<and> (\<forall>t f s. am_defaulter lib (am_AddTypeDefaultingFunc lib t f s) = (am_defaulter lib s)(t \<mapsto> f)
        \<and> am_recognizes lib (am_AddTypeDefaultingFunc lib t f s) = am_recognizes lib s)
   \<and> (\<forall>gv ts s. gv_Version gv \<noteq> '''' \<and> (\<forall>t\<in>set ts. \<not> am_recognizes lib s gv t) \<longrightarrow>
        (\<exists>s'. am_AddKnownTypes lib gv ts s = Return s' \<and> am_defaulter lib s' = am_defaulter lib s
           \<and> (\<forall>gv' t. am_recognizes lib s' gv' t \<longleftrightarrow> am_recognizes lib s gv' t \<or> gv' = gv \<and> t \<in> set ts)))"

definition decoding_law :: "('s, 'b) apimachinery \<Rightarrow> bool" where
  "decoding_law lib \<longleftrightarrow>
     (\<forall>s data cfg f. am_defaulter lib s ''AuditlogForwarder'' = Some f \<and> am_DecodeInto lib s data = (None, cfg) \<longrightarrow>
        (\<exists>c. cfg = f c))"

definition scheme_laws :: "('s, 'b) apimachinery \<Rightarrow> bool" where
  "scheme_laws lib \<longleftrightarrow> builder_laws lib \<and> registry_laws lib \<and> decoding_law lib"

section \<open>Facts\<close>

lemma registered_scheme:
  assumes "registry_laws lib"
  obtains s where "run_setup [addDefaultingFuncs lib, addKnownTypes lib] (am_NewScheme lib) = Return (None, s)"
    and "am_defaulter lib s = [''AuditlogForwarder'' \<mapsto> SetObjectDefaults_AuditlogForwarder]"
    and "\<forall>gv t. am_recognizes lib s gv t \<longleftrightarrow> gv = SchemeGroupVersion \<and> t = ''AuditlogForwarder''"
proof -
  let ?s0 = "am_AddTypeDefaultingFunc lib ''AuditlogForwarder'' SetObjectDefaults_AuditlogForwarder (am_NewScheme lib)"
  have new: "\<not> am_recognizes lib ?s0 gv t" for gv t using assms by (simp add: registry_laws_def)
  have defaulter: "am_defaulter lib ?s0 = [''AuditlogForwarder'' \<mapsto> SetObjectDefaults_AuditlogForwarder]"
    using assms by (auto simp: registry_laws_def fun_eq_iff)
  have "gv_Version SchemeGroupVersion \<noteq> ''''" by (simp add: SchemeGroupVersion_def)
  with new obtain s where s: "am_AddKnownTypes lib SchemeGroupVersion [''AuditlogForwarder''] ?s0 = Return s"
    "am_defaulter lib s = am_defaulter lib ?s0"
    "\<forall>gv t. am_recognizes lib s gv t \<longleftrightarrow> am_recognizes lib ?s0 gv t \<or> gv = SchemeGroupVersion \<and> t \<in> set [''AuditlogForwarder'']"
    using assms unfolding registry_laws_def by blast
  show thesis
  proof (rule that)
    show "run_setup [addDefaultingFuncs lib, addKnownTypes lib] (am_NewScheme lib) = Return (None, s)"
      using s(1) by (simp add: addDefaultingFuncs_def RegisterDefaults_def addKnownTypes_def)
    show "am_defaulter lib s = [''AuditlogForwarder'' \<mapsto> SetObjectDefaults_AuditlogForwarder]"
      using s(2) defaulter by simp
    show "\<forall>gv t. am_recognizes lib s gv t \<longleftrightarrow> gv = SchemeGroupVersion \<and> t = ''AuditlogForwarder''"
      using s(3) new by simp
  qed
qed

lemma start_packages_ok:
  assumes "scheme_laws lib"
  obtains s where "start_packages lib = Return s"
    and "am_defaulter lib s = [''AuditlogForwarder'' \<mapsto> SetObjectDefaults_AuditlogForwarder]"
    and "\<forall>gv t. am_recognizes lib s gv t \<longleftrightarrow> gv = SchemeGroupVersion \<and> t = ''AuditlogForwarder''"
proof -
  have laws: "builder_laws lib" "registry_laws lib" using assms by (simp_all add: scheme_laws_def)
  from registered_scheme [OF laws(2)] obtain s where
    s: "run_setup [addDefaultingFuncs lib, addKnownTypes lib] (am_NewScheme lib) = Return (None, s)"
    "am_defaulter lib s = [''AuditlogForwarder'' \<mapsto> SetObjectDefaults_AuditlogForwarder]"
    "\<forall>gv t. am_recognizes lib s gv t \<longleftrightarrow> gv = SchemeGroupVersion \<and> t = ''AuditlogForwarder''" .
  have "start_packages lib = Return s"
    using laws(1) s(1)
    by (simp add: start_packages_def options_init_def AddToScheme_def config_init_def config_vars_def builder_laws_def
        del: run_setup.simps)
  with s(2,3) that show thesis by blast
qed

lemma scheme_decoder_defaults:
  assumes "decoding_law lib" and "am_defaulter lib s ''AuditlogForwarder'' = Some SetObjectDefaults_AuditlogForwarder"
  shows "decoder_defaults (am_DecodeInto lib s)"
  using assms unfolding decoding_law_def decoder_defaults_def by blast

lemma started_decoder:
  assumes "scheme_laws lib" and "start_packages lib = Return s"
  shows "decoder_defaults (am_DecodeInto lib s)"
proof -
  obtain s' where "start_packages lib = Return s'"
    "am_defaulter lib s' = [''AuditlogForwarder'' \<mapsto> SetObjectDefaults_AuditlogForwarder]"
    using start_packages_ok [OF assms(1)] .
  with assms show ?thesis by (auto simp: scheme_laws_def intro: scheme_decoder_defaults)
qed

section \<open>Properties\<close>

text \<open>
  Property C28. Initialising the packages does not panic, and leaves a decoder that does what loading the
  configuration relies on: its scheme knows exactly the configuration type, under
  \<^verbatim>\<open>config.auditlog-forwarder.gardener.cloud/v1alpha1\<close>, although \<^verbatim>\<open>AddToScheme\<close> was bound before anything was
  registered, and everything it decodes went through the generated defaulter.
\<close>

theorem packages_initialised:
  assumes "scheme_laws lib"
  shows "\<exists>s. start_packages lib = Return s
    \<and> (\<forall>gv t. am_recognizes lib s gv t \<longleftrightarrow>
         gv = \<lparr>gv_Group = ''config.auditlog-forwarder.gardener.cloud'', gv_Version = ''v1alpha1''\<rparr> \<and> t = ''AuditlogForwarder'')
    \<and> decoder_defaults (am_DecodeInto lib s)"
proof -
  from start_packages_ok [OF assms] obtain s where s: "start_packages lib = Return s"
    "am_defaulter lib s = [''AuditlogForwarder'' \<mapsto> SetObjectDefaults_AuditlogForwarder]"
    "\<forall>gv t. am_recognizes lib s gv t \<longleftrightarrow> gv = SchemeGroupVersion \<and> t = ''AuditlogForwarder''" .
  from started_decoder [OF assms s(1)] s(1,3) show ?thesis by (auto simp: SchemeGroupVersion_def GroupName_def)
qed

text \<open>
  A configuration that was loaded has no unset field left: when \<^verbatim>\<open>Complete\<close> succeeds with the decoder
  of the package initialisation, the log level and format, both ports and the delivery mode of every output are
  set.
\<close>

lemma loaded_config_defaulted:
  assumes "scheme_laws lib" and "start_packages lib = Return s" and "ae_decodeInto env = am_DecodeInto lib s"
    and "Complete env o1 = (None, o2)"
  shows "\<exists>cfg. opt_Config o2 = Some cfg \<and> Level (LogConfig cfg) \<noteq> '''' \<and> Format (LogConfig cfg) \<noteq> ''''
    \<and> Port (ServerConfig cfg) \<noteq> 0 \<and> MetricsPort (ServerConfig cfg) \<noteq> 0
    \<and> (\<forall>out\<in>set (Outputs cfg). DeliveryMode out \<noteq> '''')"
proof -
  have "decoder_defaults (ae_decodeInto env)" using started_decoder [OF assms(1,2)] assms(3) by simp
  with assms(4) obtain c where c: "opt_Config o2 = Some (SetDefaults_AuditlogForwarder c)" by (rule Complete_ok)
  have "DeliveryMode out \<noteq> ''''" if "out \<in> set (SetDefaults_Outputs (Outputs c))" for out
    using that by (auto simp: in_set_conv_nth SetDefaults_Outputs_nth delivery_mode_defs split: if_splits)
  with c show ?thesis by (simp add: log_const_defs)
qed

section \<open>A concrete library\<close>

text \<open>Schemes as lists of known types with a map of defaulters, builders as lists of functions; everything decodes.\<close>

type_synonym sample_scheme = "(GroupVersion \<times> string) list \<times> (string \<rightharpoonup> AuditlogForwarder \<Rightarrow> AuditlogForwarder)"

definition sample_lib :: "(sample_scheme, sample_scheme scheme_func list) apimachinery" where
  "sample_lib = \<lparr>am_NewScheme = ([], Map.empty),
     am_AddKnownTypes = (\<lambda>gv ts (ks, ds). if gv_Version gv = '''' then Panic else Return (ks @ map (Pair gv) ts, ds)),
     am_AddTypeDefaultingFunc = (\<lambda>t f (ks, ds). (ks, ds(t \<mapsto> f))),
     am_nilBuilder = [], am_Register = (\<lambda>fs b. b @ fs), am_AddToScheme = run_setup,
     am_Must = (\<lambda>e. if e = None then Return () else Panic),
     am_DecodeInto = (\<lambda>(ks, ds) data. (None, case ds ''AuditlogForwarder'' of Some f \<Rightarrow> f sample_raw | None \<Rightarrow> sample_raw)),
     am_recognizes = (\<lambda>(ks, ds) gv t. (gv, t) \<in> set ks),
     am_defaulter = (\<lambda>(ks, ds). ds)\<rparr>"

lemma sample_lib_laws: "scheme_laws sample_lib"
proof -
  have "builder_laws sample_lib" by (simp add: builder_laws_def sample_lib_def)
  moreover have "registry_laws sample_lib" by (auto simp: registry_laws_def sample_lib_def)
  moreover have "decoding_law sample_lib" by (auto simp: decoding_law_def sample_lib_def)
  ultimately show ?thesis by (simp add: scheme_laws_def)
qed

lemma sample_started:
  obtains s where "start_packages sample_lib = Return s" and "ae_decodeInto sample_app_env = am_DecodeInto sample_lib s"
proof -
  obtain s where s: "start_packages sample_lib = Return s"
    "am_defaulter sample_lib s = [''AuditlogForwarder'' \<mapsto> SetObjectDefaults_AuditlogForwarder]"
    using start_packages_ok [OF sample_lib_laws] .
  then have "am_DecodeInto sample_lib s data = (None, sample_config)" for data
    by (auto simp: sample_lib_def sample_config_def split: prod.splits)
  with s(1) that show thesis by (simp add: sample_app_env_def fun_eq_iff)
qed

theorem packages_initialised_witness:
  "\<exists>s. start_packages sample_lib = Return s \<and> decoder_defaults (am_DecodeInto sample_lib s)"
  using packages_initialised [OF sample_lib_laws] by blast

theorem loaded_config_defaulted_witness:
  "\<exists>cfg. opt_Config sample_options = Some cfg \<and> Port (ServerConfig cfg) \<noteq> 0"
proof -
  obtain s where s: "start_packages sample_lib = Return s" "ae_decodeInto sample_app_env = am_DecodeInto sample_lib s"
    by (rule sample_started)
  from loaded_config_defaulted [OF sample_lib_laws s sample_complete] show ?thesis by blast
qed

end
