(* ===== verification/TlsWatcher.thy ===== *)
theory TlsWatcher
  imports HttpOutput StepSystem
begin

text \<open>
  Reloading TLS credentials when their files change: \<^verbatim>\<open>reloadTLSClient\<close> and the event loop
  \<^verbatim>\<open>watchTLSFiles\<close> of \<^verbatim>\<open>src/internal/output/http/http.go\<close>, and how \<^verbatim>\<open>Close\<close> ends the loop.

  One iteration of the loop takes one ready case of its \<^verbatim>\<open>select\<close>; the cases are the events
  \<open>watch_event\<close>, and the environment (file system events of fsnotify, the context, the timer, the
  scheduler) decides which comes when. \<open>watch_ready\<close> says when a case can be taken, \<open>watch_case\<close> what it
  does, and a run is any list of timed cases each ready when it is taken. The debounce timer is the
  instant at which it fires; \<^verbatim>\<open>debounceC\<close> is nil exactly when there is none.

  The lemmas: a failed reload keeps the client and a successful one replaces it by one built from the
  files as they are then; a reload only happens after a quiet period of the debounce length; a burst
  of events causes one reload; and \<^verbatim>\<open>Close\<close> returns, after which no reload happens.
\<close>

section \<open>Reload\<close>

text \<open>What the background operations leave behind besides the client: log lines and the clients whose
  idle connections were closed.\<close>

record reload_effects =
  reload_log :: "log_entry list"
  idle_closed :: "http_client list"

definition reloadTLSClient ::
    "sys_env \<Rightarrow> ClientTLS \<Rightarrow> HttpOutput \<Rightarrow> reload_effects \<Rightarrow> HttpOutput \<times> reload_effects" where
  "reloadTLSClient env tlsConfig o1 fx =
     (case createHTTPClient env (Some tlsConfig) of
        Inl e \<Rightarrow>
          (o1, fx\<lparr>reload_log := reload_log fx @
             [LogError (out_logger o1) e ''Failed to reload TLS credentials, keeping existing client'' []]\<rparr>)
      | Inr client \<Rightarrow>
          (let old = out_client o1;
               o1 = o1\<lparr>out_client := Some client\<rparr>;
               fx = (case old of None \<Rightarrow> fx | Some c \<Rightarrow> fx\<lparr>idle_closed := idle_closed fx @ [c]\<rparr>)
           in (o1, fx\<lparr>reload_log := reload_log fx @ [LogInfo (out_logger o1) ''Reloaded TLS credentials'' []]\<rparr>)))"

section \<open>The event loop\<close>

datatype fs_op = FsCreate | FsWrite | FsRemove | FsRename | FsChmod

text \<open>The cases of the \<^verbatim>\<open>select\<close>; a fired timer carries the environment the reload runs in.\<close>

datatype watch_event =
    CtxDone
  | DebounceFired sys_env
  | FsEvent "fs_op list"
  | EventsClosed
  | WatcherError go_error
  | ErrorsClosed

record watch_loop =
  loop_out :: HttpOutput
  loop_fx :: reload_effects
  debounceAt :: "int option"
  loop_done :: bool

text \<open>An event that indicates changed file content.\<close>

definition qualifying :: "fs_op list \<Rightarrow> bool" where
  "qualifying ops \<longleftrightarrow>
     \<not> (FsWrite \<notin> set ops \<and> FsCreate \<notin> set ops \<and> FsRemove \<notin> set ops \<and> FsRename \<notin> set ops)"

text \<open>
  \<^verbatim>\<open>armDebounce\<close>: a pending timer is stopped (and its channel drained), then the timer is set to the
  debounce from now.
\<close>

definition armDebounce :: "int \<Rightarrow> watch_loop \<Rightarrow> watch_loop" where
  "armDebounce now st = st\<lparr>debounceAt := Some (now + max 0 (sint (tlsReloadDebounce (loop_out st))))\<rparr>"

fun watch_ready :: "watch_loop \<Rightarrow> int \<Rightarrow> watch_event \<Rightarrow> bool" where
  "watch_ready st now (DebounceFired env) =
     (\<not> loop_done st \<and> (case debounceAt st of None \<Rightarrow> False | Some t \<Rightarrow> t \<le> now))"
| "watch_ready st now _ = (\<not> loop_done st)"

fun watch_case :: "ClientTLS \<Rightarrow> int \<Rightarrow> watch_event \<Rightarrow> watch_loop \<Rightarrow> watch_loop" where
  "watch_case tlsConfig now CtxDone st = st\<lparr>debounceAt := None, loop_done := True\<rparr>"
| "watch_case tlsConfig now (DebounceFired env) st =
     (let st = st\<lparr>debounceAt := None\<rparr>;
          (o1, fx) = reloadTLSClient env tlsConfig (loop_out st) (loop_fx st)
      in st\<lparr>loop_out := o1, loop_fx := fx\<rparr>)"
| "watch_case tlsConfig now (FsEvent ops) st = (if \<not> qualifying ops then st else armDebounce now st)"
| "watch_case tlsConfig now EventsClosed st = st\<lparr>debounceAt := None, loop_done := True\<rparr>"
| "watch_case tlsConfig now (WatcherError e) st =
     st\<lparr>loop_fx := (loop_fx st)\<lparr>reload_log := reload_log (loop_fx st) @
          [LogError (out_logger (loop_out st)) e ''File watcher error'' []]\<rparr>\<rparr>"
| "watch_case tlsConfig now ErrorsClosed st = st\<lparr>debounceAt := None, loop_done := True\<rparr>"

text \<open>The loop as it is entered: the timer exists but is stopped.\<close>

definition watch_init :: "HttpOutput \<Rightarrow> watch_loop" where
  "watch_init o1 = \<lparr>loop_out = o1, loop_fx = \<lparr>reload_log = [], idle_closed = []\<rparr>,
     debounceAt = None, loop_done = False\<rparr>"

type_synonym watch_trace = "(int \<times> watch_event) list"

text \<open>
  The runs of \<^verbatim>\<open>watchTLSFiles\<close>: \<open>watch_run cfg st tr st'\<close> holds if the cases of \<open>tr\<close> can be taken one after
  the other, at times that do not go backwards.
\<close>

inductive watch_run :: "ClientTLS \<Rightarrow> watch_loop \<Rightarrow> watch_trace \<Rightarrow> watch_loop \<Rightarrow> bool" for cfg where
  watch_start: "watch_run cfg st [] st"
| watch_next: "\<lbrakk>watch_run cfg st tr st1; watch_ready st1 now ev; \<forall>(t, _)\<in>set tr. t \<le> now\<rbrakk>
    \<Longrightarrow> watch_run cfg st (tr @ [(now, ev)]) (watch_case cfg now ev st1)"

inductive_cases watch_run_snocE: "watch_run cfg st (tr @ [(now, ev)]) st'"
inductive_simps watch_run_Nil [simp]: "watch_run cfg st [] st'"

section \<open>Facts on runs\<close>

definition is_reload :: "watch_event \<Rightarrow> bool" where
  "is_reload ev \<longleftrightarrow> (case ev of DebounceFired _ \<Rightarrow> True | _ \<Rightarrow> False)"

definition is_change :: "watch_event \<Rightarrow> bool" where
  "is_change ev \<longleftrightarrow> (case ev of FsEvent ops \<Rightarrow> qualifying ops | _ \<Rightarrow> False)"

definition reload_count :: "watch_trace \<Rightarrow> nat" where
  "reload_count tr = length (filter (\<lambda>(t, ev). is_reload ev) tr)"

definition change_times :: "watch_trace \<Rightarrow> int list" where
  "change_times tr = map fst (filter (\<lambda>(t, ev). is_change ev) tr)"

lemma change_times_snoc [simp]:
  "change_times (tr @ [(t, ev)]) = change_times tr @ (if is_change ev then [t] else [])"
  by (simp add: change_times_def)

lemma reload_count_snoc [simp]:
  "reload_count (tr @ [(t, ev)]) = reload_count tr + (if is_reload ev then 1 else 0)"
  by (simp add: reload_count_def)

lemma reloadTLSClient_frame:
  assumes "reloadTLSClient env cfg o1 fx = (o2, fx')"
  shows "tlsReloadDebounce o2 = tlsReloadDebounce o1" and "out_watcher o2 = out_watcher o1"
    and "out_logger o2 = out_logger o1"
  using assms by (auto simp: reloadTLSClient_def Let_def split: sum.splits)

lemma watch_case_debounce_length [simp]:
  "tlsReloadDebounce (loop_out (watch_case cfg now ev st)) = tlsReloadDebounce (loop_out st)"
  by (cases ev) (auto simp: armDebounce_def Let_def reloadTLSClient_frame split: prod.splits)

lemma watch_run_debounce_length:
  "watch_run cfg st tr st' \<Longrightarrow> tlsReloadDebounce (loop_out st') = tlsReloadDebounce (loop_out st)"
  by (induction rule: watch_run.induct) simp_all

text \<open>
  The timer invariant of a run from the loop's entry: a pending timer fires exactly the debounce after
  the last change, and every change accounts for at most one reload or pending timer.
\<close>

definition timer_inv :: "int \<Rightarrow> watch_trace \<Rightarrow> watch_loop \<Rightarrow> bool" where
  "timer_inv d tr st \<longleftrightarrow>
     (\<forall>x. debounceAt st = Some x \<longrightarrow> change_times tr \<noteq> [] \<and> x = last (change_times tr) + d)
   \<and> reload_count tr + (if debounceAt st = None then 0 else 1) \<le> length (change_times tr)"

lemma timer_inv_case:
  assumes "timer_inv d tr st" and "watch_ready st now ev"
    and "d = max 0 (sint (tlsReloadDebounce (loop_out st)))"
  shows "timer_inv d (tr @ [(now, ev)]) (watch_case cfg now ev st)"
  using assms
  by (cases ev)
     (auto simp: timer_inv_def is_change_def is_reload_def armDebounce_def Let_def
        split: prod.splits option.splits if_splits)

lemma watch_run_timer_inv:
  assumes "watch_run cfg (watch_init o1) tr st"
  shows "timer_inv (max 0 (sint (tlsReloadDebounce o1))) tr st"
  using assms
proof (induction "watch_init o1" tr st rule: watch_run.induct)
  case watch_start
  show ?case by (simp add: timer_inv_def watch_init_def reload_count_def)
next
  case (watch_next tr st1 now ev)
  have "tlsReloadDebounce (loop_out st1) = tlsReloadDebounce o1"
    using watch_run_debounce_length [OF watch_next.hyps(1)] by (simp add: watch_init_def)
  with watch_next show ?case by (intro timer_inv_case) simp_all
qed

lemma change_times_bound: "\<forall>(t, _)\<in>set tr. t \<le> now \<Longrightarrow> \<forall>c\<in>set (change_times tr). c \<le> now"
  by (auto simp: change_times_def)

lemma watch_run_last_change:
  "watch_run cfg st tr st' \<Longrightarrow> \<forall>c\<in>set (change_times tr). c \<le> last (change_times tr)"
proof (induction rule: watch_run.induct)
  case watch_start
  show ?case by (simp add: change_times_def)
next
  case (watch_next st tr st1 now ev)
  from watch_next.hyps(3) have "\<forall>c\<in>set (change_times tr). c \<le> now" by (rule change_times_bound)
  with watch_next.IH show ?case by auto
qed

lemma reload_quiet:
  assumes "watch_run cfg (watch_init o1) tr st" and "watch_ready st t (DebounceFired env)"
    and "d = max 0 (sint (tlsReloadDebounce o1))"
  shows "change_times tr \<noteq> []" and "\<forall>c\<in>set (change_times tr). c + d \<le> t"
proof -
  from assms(2) obtain x where "debounceAt st = Some x" "x \<le> t" by (auto split: option.splits)
  with watch_run_timer_inv [OF assms(1)] assms(3)
  have "change_times tr \<noteq> []" "last (change_times tr) + d \<le> t" by (auto simp: timer_inv_def)
  with watch_run_last_change [OF assms(1)]
  show "change_times tr \<noteq> []" and "\<forall>c\<in>set (change_times tr). c + d \<le> t" by fastforce+
qed

section \<open>Properties of the loop\<close>

text \<open>
  Property C31. Credentials are only reloaded after a quiet period: whenever a run of the loop takes the
  timer case, some file change came before it, and every change so far is at least the debounce old.
\<close>

theorem reload_after_quiet_period:
  assumes "watch_run cfg (watch_init o1) (tr @ [(t, DebounceFired env)]) st"
  shows "change_times tr \<noteq> []
    \<and> (\<forall>c\<in>set (change_times tr). c + max 0 (sint (tlsReloadDebounce o1)) \<le> t)"
  using assms by (elim watch_run_snocE) (auto dest: reload_quiet)

lemma burst_inv:
  assumes "watch_run cfg (watch_init o1) tr st" and "d = max 0 (sint (tlsReloadDebounce o1))"
    and "\<forall>a\<in>set (change_times tr). \<forall>b\<in>set (change_times tr). b < a + d"
  shows "reload_count tr = 0 \<or>
    (reload_count tr = 1 \<and> debounceAt st = None
      \<and> (\<exists>c\<in>set (change_times tr). \<exists>(r, _)\<in>set tr. c + d \<le> r))"
  using assms(1,3)
proof (induction "watch_init o1" tr st rule: watch_run.induct)
  case watch_start
  show ?case by (simp add: reload_count_def)
next
  case (watch_next tr st1 now ev)
  from watch_next.prems have IH: "reload_count tr = 0 \<or>
    (reload_count tr = 1 \<and> debounceAt st1 = None
      \<and> (\<exists>c\<in>set (change_times tr). \<exists>(r, _)\<in>set tr. c + d \<le> r))"
    by (intro watch_next.hyps(2)) auto
  show ?case
  proof (cases "is_reload ev")
    case True
    then obtain env where ev: "ev = DebounceFired env" by (auto simp: is_reload_def split: watch_event.splits)
    note q = reload_quiet [OF watch_next.hyps(1) watch_next.hyps(3) [unfolded ev] assms(2)]
    have "reload_count tr = 0"
      using IH watch_next.hyps(3) ev by (auto split: option.splits)
    moreover from q obtain c where "c \<in> set (change_times tr)" "c + d \<le> now" by (meson last_in_set)
    ultimately show ?thesis using ev
      by (auto simp: is_reload_def is_change_def Let_def split: prod.splits)
  next
    case False
    have "\<not> is_change ev" if "reload_count tr = 1"
    proof
      assume ch: "is_change ev"
      from IH that obtain c r e where c: "c \<in> set (change_times tr)" "(r, e) \<in> set tr" "c + d \<le> r" by auto
      with watch_next.hyps(4) have "c + d \<le> now" by fastforce
      with watch_next.prems ch c(1) show False by fastforce
    qed
    moreover have "debounceAt (watch_case cfg now ev st1) = None" if "debounceAt st1 = None" "\<not> is_change ev"
      using that False by (cases ev) (auto simp: is_reload_def is_change_def)
    ultimately show ?thesis using IH False by auto
  qed
qed

text \<open>
  A burst of file changes causes at most one reload: in any run whose changes all lie
  within less than the debounce of each other (as the several events of one Kubernetes secret update
  do), the timer case is taken at most once, however the events, errors and timer interleave.
\<close>

lemma burst_reloads_once:
  assumes "watch_run cfg (watch_init o1) tr st"
    and "\<forall>a\<in>set (change_times tr). \<forall>b\<in>set (change_times tr). b < a + max 0 (sint (tlsReloadDebounce o1))"
  shows "reload_count tr \<le> 1"
  using burst_inv [OF assms(1) refl assms(2)] by auto

text \<open>
  Every reload is caused by a change of its own: in any run there are at most as many
  reloads as qualifying file events; other events (chmod, watcher errors) cause none.
\<close>

lemma reloads_bounded_by_changes:
  assumes "watch_run cfg (watch_init o1) tr st"
  shows "reload_count tr \<le> length (change_times tr)"
  using watch_run_timer_inv [OF assms] by (auto simp: timer_inv_def split: if_splits)

text \<open>The clients the reloads of a trace managed to build, in order.\<close>

fun loaded_client :: "ClientTLS \<Rightarrow> watch_event \<Rightarrow> http_client list" where
  "loaded_client cfg (DebounceFired env) =
     (case createHTTPClient env (Some cfg) of Inl _ \<Rightarrow> [] | Inr c \<Rightarrow> [c])"
| "loaded_client cfg _ = []"

definition loaded_clients :: "ClientTLS \<Rightarrow> watch_trace \<Rightarrow> http_client list" where
  "loaded_clients cfg tr = concat (map (\<lambda>(t, ev). loaded_client cfg ev) tr)"

text \<open>
  What the output's client is during a run: the client built by the last reload that
  found loadable credentials, or the original one if none did (so a failed reload keeps the client in
  use), while nothing else of the output changes; and the idle connections of exactly the replaced
  clients, in order, have been closed.
\<close>

lemma watch_run_client:
  assumes "watch_run cfg (watch_init o1) tr st" and "out_client o1 = Some c0"
  shows "loop_out st = o1\<lparr>out_client := Some (last (c0 # loaded_clients cfg tr))\<rparr>
    \<and> idle_closed (loop_fx st) = butlast (c0 # loaded_clients cfg tr)"
  using assms
proof (induction "watch_init o1" tr st rule: watch_run.induct)
  case watch_start
  then show ?case by (cases o1) (simp add: watch_init_def loaded_clients_def)
next
  case (watch_next tr st1 now ev)
  have snoc: "loaded_clients cfg (tr @ [(now, ev)]) = loaded_clients cfg tr @ loaded_client cfg ev"
    by (simp add: loaded_clients_def)
  from watch_next have IH: "loop_out st1 = o1\<lparr>out_client := Some (last (c0 # loaded_clients cfg tr))\<rparr>"
    "idle_closed (loop_fx st1) = butlast (c0 # loaded_clients cfg tr)" by simp_all
  show ?case
  proof (cases "loaded_client cfg ev")
    case Nil
    then have "loop_out (watch_case cfg now ev st1) = loop_out st1
        \<and> idle_closed (loop_fx (watch_case cfg now ev st1)) = idle_closed (loop_fx st1)"
      by (cases ev) (auto simp: armDebounce_def reloadTLSClient_def split: sum.splits)
    with Nil IH snoc show ?thesis by simp
  next
    case (Cons c cs)
    then obtain env where "ev = DebounceFired env" "createHTTPClient env (Some cfg) = Inr c" "cs = []"
      by (cases ev) (auto split: sum.splits)
    with Cons IH snoc show ?thesis
      by (simp add: reloadTLSClient_def Let_def butlast_append)
  qed
qed

text \<open>
  Property C32. A change is picked up: once a qualifying event was handled at time \<open>c\<close>, and unless a
  further event re-arms the timer, the reload can be taken at any time from \<open>c\<close> plus the debounce on, and
  if the credentials load then, the output's client is the one built from them.
\<close>

theorem change_then_reload:
  assumes "watch_run cfg (watch_init o1) (tr @ [(c, FsEvent ops)]) st" and "qualifying ops"
    and "c + max 0 (sint (tlsReloadDebounce o1)) \<le> now"
    and "createHTTPClient env (Some cfg) = Inr client"
  shows "\<exists>st'. watch_run cfg (watch_init o1) ((tr @ [(c, FsEvent ops)]) @ [(now, DebounceFired env)]) st'
    \<and> out_client (loop_out st') = Some client \<and> debounceAt st' = None"
proof -
  from assms(1) obtain st1 where st1: "watch_run cfg (watch_init o1) tr st1" "watch_ready st1 c (FsEvent ops)"
    "\<forall>(t, _)\<in>set tr. t \<le> c" "st = watch_case cfg c (FsEvent ops) st1"
    by (elim watch_run_snocE)
  have "tlsReloadDebounce (loop_out st1) = tlsReloadDebounce o1"
    using watch_run_debounce_length [OF st1(1)] by (simp add: watch_init_def)
  with st1 assms(2,3) have "watch_ready st now (DebounceFired env)" by (simp add: armDebounce_def)
  moreover have "\<forall>(t, _)\<in>set (tr @ [(c, FsEvent ops)]). t \<le> now" using st1(3) assms(3) by fastforce
  ultimately have "watch_run cfg (watch_init o1) ((tr @ [(c, FsEvent ops)]) @ [(now, DebounceFired env)])
      (watch_case cfg now (DebounceFired env) st)"
    by (intro watch_next [OF assms(1)])
  then show ?thesis
    using assms(4) by (intro exI) (auto simp: reloadTLSClient_def Let_def split: prod.splits)
qed

section \<open>Close and the loop\<close>

text \<open>
  \<^verbatim>\<open>Close\<close> runs concurrently with the loop. Its \<^verbatim>\<open>sync.Once\<close> is idle, inside the first call, or done;
  closing the watcher closes its two channels for good, so that the loop can receive from them (not ok)
  and no longer gets events or errors; the first call returns when the loop's goroutine has left the
  wait group.
\<close>

datatype once_state = OnceIdle | OnceRunning | OnceDone

record close_sys =
  cs_loop :: watch_loop
  cs_once :: once_state
  cs_watcher_closed :: bool

fun channel_allows :: "bool \<Rightarrow> watch_event \<Rightarrow> bool" where
  "channel_allows shut EventsClosed = shut"
| "channel_allows shut ErrorsClosed = shut"
| "channel_allows shut (FsEvent _) = (\<not> shut)"
| "channel_allows shut (WatcherError _) = (\<not> shut)"
| "channel_allows shut _ = True"

inductive close_step :: "ClientTLS \<Rightarrow> close_sys \<Rightarrow> close_sys \<Rightarrow> bool" for cfg where
  loop_case: "\<lbrakk>watch_ready (cs_loop s) now ev; channel_allows (cs_watcher_closed s) ev\<rbrakk>
    \<Longrightarrow> close_step cfg s (s\<lparr>cs_loop := watch_case cfg now ev (cs_loop s)\<rparr>)"
| close_begin: "cs_once s = OnceIdle
    \<Longrightarrow> close_step cfg s (s\<lparr>cs_once := OnceRunning, cs_watcher_closed := True\<rparr>)"
| close_return: "\<lbrakk>cs_once s = OnceRunning; loop_done (cs_loop s)\<rbrakk>
    \<Longrightarrow> close_step cfg s (s\<lparr>cs_once := OnceDone\<rparr>)"

definition close_init :: "HttpOutput \<Rightarrow> close_sys" where
  "close_init o1 = \<lparr>cs_loop = watch_init o1, cs_once = OnceIdle, cs_watcher_closed = False\<rparr>"

definition close_inv :: "close_sys \<Rightarrow> bool" where
  "close_inv s \<longleftrightarrow> (cs_once s \<noteq> OnceIdle \<longleftrightarrow> cs_watcher_closed s)
     \<and> (cs_once s = OnceDone \<longrightarrow> loop_done (cs_loop s))
     \<and> (loop_done (cs_loop s) \<longrightarrow> debounceAt (cs_loop s) = None)"

lemma watch_case_done: "watch_ready st now ev \<Longrightarrow> loop_done (watch_case cfg now ev st) \<Longrightarrow>
  debounceAt (watch_case cfg now ev st) = None"
  by (cases ev) (auto simp: armDebounce_def Let_def split: prod.splits if_splits)

lemma watch_ready_not_done: "watch_ready st now ev \<Longrightarrow> \<not> loop_done st"
  by (cases ev) auto

lemma close_step_inv: "close_step cfg s s' \<Longrightarrow> close_inv s \<Longrightarrow> close_inv s'"
  by (induction rule: close_step.induct)
     (auto simp: close_inv_def dest: watch_ready_not_done watch_case_done)

lemma close_reach_inv:
  assumes "(close_step cfg)\<^sup>*\<^sup>* (close_init o1) s"
  shows "close_inv s"
  using assms
proof (induction rule: rtranclp_induct)
  case base
  show ?case by (simp add: close_inv_def close_init_def watch_init_def)
next
  case (step s s')
  then show ?case by (blast intro: close_step_inv)
qed

text \<open>What is left to do once \<^verbatim>\<open>Close\<close> has begun.\<close>

definition close_work :: "close_sys \<Rightarrow> nat" where
  "close_work s = (if loop_done (cs_loop s) then 0 else if debounceAt (cs_loop s) = None then 1 else 2)
     + (if cs_once s = OnceRunning then 1 else 0)"

lemma close_step_work:
  assumes "close_step cfg s s'" and "close_inv s" and "cs_once s \<noteq> OnceIdle"
  shows "close_work s' < close_work s" and "cs_once s' \<noteq> OnceIdle"
  using assms
proof (induction rule: close_step.induct)
  case (loop_case s now ev)
  { case 1 with loop_case show ?case
      by (cases ev) (auto simp: close_work_def close_inv_def Let_def split: prod.splits option.splits) }
  { case 2 with loop_case show ?case by simp }
qed (auto simp: close_work_def)

interpretation closing: step_system "close_step cfg" "\<lambda>s. close_inv s \<and> cs_once s \<noteq> OnceIdle" close_work for cfg
  by unfold_locales (auto dest: close_step_work close_step_inv)

lemma close_progress:
  assumes "close_inv s" and "cs_once s = OnceRunning"
  shows "\<exists>s'. close_step cfg s s'"
proof (cases "loop_done (cs_loop s)")
  case True
  with assms(2) show ?thesis by (blast intro: close_return)
next
  case False
  with assms have "watch_ready (cs_loop s) 0 EventsClosed" "channel_allows (cs_watcher_closed s) EventsClosed"
    by (auto simp: close_inv_def)
  then show ?thesis by (blast intro: loop_case)
qed

lemma close_done_stuck: "close_inv s \<Longrightarrow> cs_once s = OnceDone \<Longrightarrow> \<not> close_step cfg s s'"
  by (auto simp: close_inv_def elim!: close_step.cases dest: watch_ready_not_done)

text \<open>
  Property C33. \<^verbatim>\<open>Close\<close> returns, and when it has returned the loop is over. From any state in which the
  first \<^verbatim>\<open>Close\<close> is running, no execution of the loop and \<^verbatim>\<open>Close\<close> has more than three further steps,
  and it can only stop in the state in which \<^verbatim>\<open>Close\<close> has returned; in that state the goroutine has left
  its loop and no step, in particular no reload, is possible any more.
\<close>

theorem Close_returns_and_stops_loop:
  assumes "(close_step cfg)\<^sup>*\<^sup>* (close_init o1) s" and "cs_once s = OnceRunning"
  shows "\<not> (\<exists>s'. (close_step cfg ^^ 4) s s')
    \<and> (\<forall>s'. (close_step cfg)\<^sup>*\<^sup>* s s' \<longrightarrow> (\<exists>s''. close_step cfg s' s'') \<or>
         (cs_once s' = OnceDone \<and> loop_done (cs_loop s')))
    \<and> (\<forall>s'. (close_step cfg)\<^sup>*\<^sup>* s s' \<and> cs_once s' = OnceDone \<longrightarrow> \<not> (\<exists>s''. close_step cfg s' s''))"
proof -
  have inv: "close_inv s" and run: "cs_once s \<noteq> OnceIdle"
    using assms by (auto dest: close_reach_inv)
  have work: "close_work s \<le> 3" by (simp add: close_work_def)
  have "\<not> (\<exists>s'. (close_step cfg ^^ 4) s s')"
    using closing.no_long_run [of s 4 cfg] inv run work by auto
  moreover have reach: "close_inv s' \<and> cs_once s' \<noteq> OnceIdle" if "(close_step cfg)\<^sup>*\<^sup>* s s'" for s'
    using closing.reach_inv [OF that] inv run by simp
  moreover have "(\<exists>s''. close_step cfg s' s'') \<or> (cs_once s' = OnceDone \<and> loop_done (cs_loop s'))"
    if "(close_step cfg)\<^sup>*\<^sup>* s s'" for s'
    using reach [OF that] close_progress [of s' cfg] by (cases "cs_once s'") (auto simp: close_inv_def)
  ultimately show ?thesis using close_done_stuck by blast
qed

section \<open>Concrete runs\<close>

definition sample_tls :: ClientTLS where
  "sample_tls = \<lparr>CAFile = ''/etc/ssl/ca.crt'', ClientCertFile = '''', ClientKeyFile = ''''\<rparr>"

definition sample_client :: http_client where
  "sample_client = \<lparr>Timeout = 15 * Second, Transport = None\<rparr>"

definition watched_out :: HttpOutput where
  "watched_out = new_output \<lparr>URL = ''https://example.com'', HTTPTLS = Some sample_tls, Compression = ''''\<rparr>
     sample_client"

text \<open>Three events of a secret update within 20 ns, then the timer.\<close>

definition sample_burst :: watch_trace where
  "sample_burst = [(10, FsEvent [FsCreate]), (20, FsEvent [FsChmod]), (30, FsEvent [FsRename])]"

lemma watched_out_fields:
  "tlsReloadDebounce watched_out = 500000000" "out_client watched_out = Some sample_client"
  by (simp_all add: watched_out_def new_output_def defaultTLSReloadDebounce_def Millisecond_def)

lemma sample_burst_run:
  "\<exists>st. watch_run sample_tls (watch_init watched_out) sample_burst st \<and> \<not> loop_done st
     \<and> debounceAt st = Some 500000030"
proof -
  let ?i = "watch_init watched_out"
  let ?s1 = "watch_case sample_tls 10 (FsEvent [FsCreate]) ?i"
  let ?s2 = "watch_case sample_tls 20 (FsEvent [FsChmod]) ?s1"
  let ?s3 = "watch_case sample_tls 30 (FsEvent [FsRename]) ?s2"
  have "watch_run sample_tls ?i [(10, FsEvent [FsCreate])] ?s1"
    using watch_next [OF watch_start, of ?i 10 "FsEvent [FsCreate]" sample_tls] by (simp add: watch_init_def)
  from watch_next [OF this, of 20 "FsEvent [FsChmod]"]
  have "watch_run sample_tls ?i [(10, FsEvent [FsCreate]), (20, FsEvent [FsChmod])] ?s2"
    by (simp add: watch_init_def armDebounce_def)
  from watch_next [OF this, of 30 "FsEvent [FsRename]"]
  have "watch_run sample_tls ?i sample_burst ?s3"
    by (simp add: watch_init_def armDebounce_def qualifying_def sample_burst_def)
  moreover have "\<not> loop_done ?s3 \<and> debounceAt ?s3 = Some 500000030"
    by (simp add: watch_init_def armDebounce_def qualifying_def watched_out_fields)
  ultimately show ?thesis by blast
qed

lemma sample_reload_run:
  "\<exists>st. watch_run sample_tls (watch_init watched_out)
     (sample_burst @ [(500000030, DebounceFired sample_env)]) st"
proof -
  from sample_burst_run obtain st where "watch_run sample_tls (watch_init watched_out) sample_burst st"
    "watch_ready st 500000030 (DebounceFired sample_env)" by auto
  from watch_next [OF this] show ?thesis by (auto simp: sample_burst_def)
qed

lemma sample_load: "\<exists>c. createHTTPClient sample_env (Some sample_tls) = Inr c"
  by (simp add: createHTTPClient_def loadCACertPool_def sample_env_def sample_tls_def Let_def)

lemma sample_changes: "change_times sample_burst = [10, 30]"
  by (simp add: change_times_def sample_burst_def is_change_def qualifying_def)

lemma sample_changes_reload:
  "change_times (sample_burst @ [(t, DebounceFired env)]) = [10, 30]"
  "reload_count (sample_burst @ [(t, DebounceFired env)]) = 1"
  by (simp_all add: sample_changes is_change_def)
     (simp add: is_reload_def reload_count_def sample_burst_def)

theorem reload_after_quiet_period_witness:
  "\<exists>st. watch_run sample_tls (watch_init watched_out)
      (sample_burst @ [(500000030, DebounceFired sample_env)]) st
    \<and> (\<forall>c\<in>set (change_times sample_burst). c + 500000000 \<le> 500000030)"
proof -
  from sample_reload_run obtain st where st: "watch_run sample_tls (watch_init watched_out)
      (sample_burst @ [(500000030, DebounceFired sample_env)]) st" by blast
  from reload_after_quiet_period [OF st] st show ?thesis by (auto simp: watched_out_fields)
qed

theorem burst_reloads_once_witness:
  "\<exists>st. watch_run sample_tls (watch_init watched_out)
      (sample_burst @ [(500000030, DebounceFired sample_env)]) st
    \<and> reload_count (sample_burst @ [(500000030, DebounceFired sample_env)]) \<le> 1"
proof -
  from sample_reload_run obtain st where st: "watch_run sample_tls (watch_init watched_out)
      (sample_burst @ [(500000030, DebounceFired sample_env)]) st" by blast
  have "\<forall>a\<in>set (change_times (sample_burst @ [(500000030, DebounceFired sample_env)])).
      \<forall>b\<in>set (change_times (sample_burst @ [(500000030, DebounceFired sample_env)])).
        b < a + max 0 (sint (tlsReloadDebounce watched_out))"
    unfolding sample_changes_reload(1) by (simp add: watched_out_fields)
  from burst_reloads_once [OF st this] st show ?thesis by blast
qed

theorem reloads_bounded_by_changes_witness:
  "\<exists>st. watch_run sample_tls (watch_init watched_out)
      (sample_burst @ [(500000030, DebounceFired sample_env)]) st
    \<and> reload_count (sample_burst @ [(500000030, DebounceFired sample_env)]) \<le> length [10::int, 30]"
proof -
  from sample_reload_run obtain st where st: "watch_run sample_tls (watch_init watched_out)
      (sample_burst @ [(500000030, DebounceFired sample_env)]) st" by blast
  from reloads_bounded_by_changes [OF st] st show ?thesis
    unfolding sample_changes_reload(1) by blast
qed

theorem watch_run_client_witness:
  "\<exists>st c. watch_run sample_tls (watch_init watched_out)
      (sample_burst @ [(500000030, DebounceFired sample_env)]) st
    \<and> out_client (loop_out st) = Some c \<and> createHTTPClient sample_env (Some sample_tls) = Inr c
    \<and> idle_closed (loop_fx st) = [sample_client]"
proof -
  from sample_reload_run obtain st where st: "watch_run sample_tls (watch_init watched_out)
      (sample_burst @ [(500000030, DebounceFired sample_env)]) st" by blast
  from sample_load obtain c where c: "createHTTPClient sample_env (Some sample_tls) = Inr c" by blast
  have "loaded_clients sample_tls (sample_burst @ [(500000030, DebounceFired sample_env)]) = [c]"
    by (simp add: loaded_clients_def sample_burst_def c)
  with watch_run_client [OF st watched_out_fields(2)] st c show ?thesis by auto
qed

theorem change_then_reload_witness:
  "\<exists>st c. watch_run sample_tls (watch_init watched_out)
      (sample_burst @ [(600000000, DebounceFired sample_env)]) st
    \<and> createHTTPClient sample_env (Some sample_tls) = Inr c \<and> out_client (loop_out st) = Some c"
proof -
  from sample_burst_run obtain st where st: "watch_run sample_tls (watch_init watched_out)
      ([(10, FsEvent [FsCreate]), (20, FsEvent [FsChmod])] @ [(30, FsEvent [FsRename])]) st"
    by (auto simp: sample_burst_def)
  from sample_load obtain c where c: "createHTTPClient sample_env (Some sample_tls) = Inr c" by blast
  from change_then_reload [OF st _ _ c, of 600000000] c show ?thesis
    by (auto simp: watched_out_fields qualifying_def sample_burst_def)
qed

theorem Close_returns_and_stops_loop_witness:
  "\<exists>s. (close_step sample_tls)\<^sup>*\<^sup>* (close_init watched_out) s \<and> cs_once s = OnceRunning
     \<and> \<not> (\<exists>s'. (close_step sample_tls ^^ 4) s s')"
proof -
  let ?s = "(close_init watched_out)\<lparr>cs_once := OnceRunning, cs_watcher_closed := True\<rparr>"
  have "close_step sample_tls (close_init watched_out) ?s"
    by (rule close_begin) (simp add: close_init_def)
  then have r: "(close_step sample_tls)\<^sup>*\<^sup>* (close_init watched_out) ?s" by blast
  from Close_returns_and_stops_loop [OF r] r show ?thesis by auto
qed

end
