(* ===== verification/EchoServer.thy ===== *)
theory EchoServer
  imports Handler TlsClient StepSystem
begin

text \<open>
  The echo server used to try the forwarder out, \<^verbatim>\<open>src/cmd/echo-server/main.go\<close>: its TLS set-up, its two
  request handlers, and \<^verbatim>\<open>main\<close> as a step relation: the goroutine of the health server and the main goroutine run
  side by side, and whichever calls \<^verbatim>\<open>os.Exit\<close> first ends the process. That a listener returns, and with what,
  is up to the environment.
\<close>

section \<open>Flags and requests\<close>

record echo_flags =
  logBody :: bool
  tlsCertFile :: string
  tlsKeyFile :: string
  tlsCAFile :: string
  healthPort :: int
  echo_port :: int

text \<open>A client certificate is given by the common names of its subject and issuer.\<close>

record echo_request =
  echo_Method :: string
  echo_Path :: string
  echo_Peer :: "(string \<times> string) option"
  echo_Body :: "bytes result"
  echo_BodyClose :: err

section \<open>Handlers\<close>

definition healthHandler :: "response_writer \<Rightarrow> echo_request \<Rightarrow> response_writer \<times> log_entry list" where
  "healthHandler w r =
     (if echo_Path r = ''/health'' then
        (case Write ''{\"status\": \"ok\"}'' (header_Add ''Content-Type'' ''application/json'' w) of
           (Some e, w) \<Rightarrow> (w, [LogError (Logger [] []) e ''Failed to write health response'' []])
         | (None, w) \<Rightarrow> (w, []))
      else (http_NotFound w, []))"

text \<open>The log line of a handled request: what was asked, by whom, and the body if it is logged.\<close>

definition auditHandler ::
    "echo_flags \<Rightarrow> response_writer \<Rightarrow> echo_request \<Rightarrow> response_writer \<times> log_entry list" where
  "auditHandler fl w r =
     (let args = [(''method'', echo_Method r), (''path'', echo_Path r)] @
            (case echo_Peer r of None \<Rightarrow> [] | Some (cn, issuer) \<Rightarrow> [(''client'', cn), (''issuer'', issuer)]);
          reads = logBody fl \<and> echo_Method r = ''POST'';
          closes = (if reads then (case echo_BodyClose r of
                       Some e \<Rightarrow> [LogInfo (Logger [] []) ''Error closing body:'' [(''error'', error_text e)]] | None \<Rightarrow> []) else [])
      in case (if reads then map_sum id Some (echo_Body r) else Inr None) of
           Inl e \<Rightarrow>
             (http_Error (header_Add ''Content-Type'' ''application/json'' w) ''{\"success\": false}'' 500, closes)
         | Inr body \<Rightarrow>
             (let args = args @ (case body of None \<Rightarrow> [] | Some b \<Rightarrow> [(''body'', b)]);
                  logs = [LogInfo (Logger [] []) ''Handled request'' args]
              in case Write ''{\"success\": true}'' (header_Add ''Content-Type'' ''application/json'' w) of
                   (Some e, w) \<Rightarrow> (w, logs @ [LogInfo (Logger [] []) ''Failed to write response'' [(''error'', error_text e)]] @ closes)
                 | (None, w) \<Rightarrow> (w, logs @ closes)))"

section \<open>TLS set-up\<close>

text \<open>The configuration and what is logged on the way to it.\<close>

definition setupTLSConfig :: "sys_env \<Rightarrow> string \<Rightarrow> string \<Rightarrow> string \<Rightarrow> (tls_config \<times> log_entry list) result" where
  "setupTLSConfig env certFile keyFile caFile =
     (case LoadX509KeyPair env certFile keyFile of
        Inl e \<Rightarrow> Inl (wrapf ''failed to load server certificate and key: '' e)
      | Inr serverCert \<Rightarrow>
          (let tlsConfig = base_tls_config\<lparr>Certificates := [serverCert]\<rparr>
           in if caFile \<noteq> '''' then
                (case ReadFile env (Clean caFile) of
                   Inl e \<Rightarrow> Inl (wrapf ''failed to read CA certificate file: '' e)
                 | Inr caCert \<Rightarrow>
                     (let caCertPool = PEMCerts env caCert
                      in if caCertPool = [] then Inl (Errors_New ''failed to parse CA certificate'')
                         else Inr (tlsConfig\<lparr>ClientCAs := Some caCertPool,
                                             ClientAuth := RequireAndVerifyClientCert\<rparr>,
                                   [LogInfo (Logger [] []) ''Client certificate verification enabled'' [(''caFilePath'', caFile)]])))
              else Inr (tlsConfig, [])))"

section \<open>main\<close>

record echo_server =
  es_Addr :: string
  es_TLSConfig :: "tls_config option"
  es_WriteTimeout :: duration
  es_ReadTimeout :: duration
  es_ReadHeaderTimeout :: duration

definition healthSrv :: "echo_flags \<Rightarrow> echo_server" where
  "healthSrv fl = \<lparr>es_Addr = '':'' @ FormatInt (healthPort fl), es_TLSConfig = None, es_WriteTimeout = 15 * Second,
     es_ReadTimeout = 15 * Second, es_ReadHeaderTimeout = 15 * Second\<rparr>"

definition echo_srv :: "echo_flags \<Rightarrow> echo_server" where
  "echo_srv fl = \<lparr>es_Addr = '':'' @ FormatInt (echo_port fl), es_TLSConfig = None, es_WriteTimeout = 15 * Second,
     es_ReadTimeout = 15 * Second, es_ReadHeaderTimeout = 15 * Second\<rparr>"

text \<open>
  The main goroutine up to its listener: it exits with status 1, or serves, with TLS or without. In both cases
  with what it has logged.
\<close>

datatype echo_main = EchoExit int "log_entry list" | EchoServe echo_server "log_entry list"

definition echo_start :: "sys_env \<Rightarrow> echo_flags \<Rightarrow> echo_main" where
  "echo_start env fl =
     (let srv = echo_srv fl; portArg = [(''port'', FormatInt (echo_port fl))]
      in if tlsCertFile fl \<noteq> '''' \<and> tlsKeyFile fl \<noteq> '''' then
           (case setupTLSConfig env (tlsCertFile fl) (tlsKeyFile fl) (tlsCAFile fl) of
              Inl e \<Rightarrow> EchoExit 1 [LogError (Logger [] []) e ''Failed to setup TLS configuration'' []]
            | Inr (tlsConfig, lg) \<Rightarrow>
                EchoServe (srv\<lparr>es_TLSConfig := Some tlsConfig\<rparr>)
                  (lg @ [LogInfo (Logger [] [])
                     (if tlsCAFile fl \<noteq> '''' then ''Starting HTTPS echo server with mTLS'' else ''Starting HTTPS echo server'') portArg]))
         else EchoServe srv [LogInfo (Logger [] []) ''Starting HTTP echo server'' portArg])"

text \<open>\<^verbatim>\<open>err != nil && err != http.ErrServerClosed\<close>, what a returning listener is asked in both goroutines.\<close>

definition listen_failed :: "go_error \<Rightarrow> err \<Rightarrow> go_error option" where
  "listen_failed errServerClosed e = (case e of Some e \<Rightarrow> if e \<noteq> errServerClosed then Some e else None | None \<Rightarrow> None)"

definition echo_exit :: "go_error \<Rightarrow> echo_server \<Rightarrow> err \<Rightarrow> int \<times> log_entry list" where
  "echo_exit errServerClosed srv e =
     (let proto = (if es_TLSConfig srv = None then ''HTTP'' else ''HTTPS'')
      in case listen_failed errServerClosed e of
           Some e \<Rightarrow> (1, [LogError (Logger [] []) e (proto @ '' echo server failed'') []])
         | None \<Rightarrow> (0, [LogInfo (Logger [] []) (proto @ '' echo server shutdown completed'') []]))"

definition health_exit :: "go_error \<Rightarrow> err \<Rightarrow> int option \<times> log_entry list" where
  "health_exit errServerClosed e =
     (case listen_failed errServerClosed e of
        Some e \<Rightarrow> (Some 1, [LogError (Logger [] []) e ''Health server failed'' []])
      | None \<Rightarrow> (None, []))"

datatype health_phase = HealthStarting | HealthServing | HealthGone

datatype main_echo = MainStarting | MainServing echo_server | MainReturned echo_server err

record echo_state =
  ec_health :: health_phase
  ec_main :: main_echo
  ec_exit :: "int option"
  ec_log :: "log_entry list"

definition echo_init :: echo_state where
  "echo_init = \<lparr>ec_health = HealthStarting, ec_main = MainStarting, ec_exit = None, ec_log = []\<rparr>"

inductive echo_step :: "sys_env \<Rightarrow> go_error \<Rightarrow> echo_flags \<Rightarrow> echo_state \<Rightarrow> echo_state \<Rightarrow> bool" for env errClosed fl where
  echo_health_start: "ec_exit s = None \<Longrightarrow> ec_health s = HealthStarting \<Longrightarrow>
    echo_step env errClosed fl s (s\<lparr>ec_health := HealthServing,
      ec_log := ec_log s @ [LogInfo (Logger [] []) ''Starting HTTP health server'' [(''port'', FormatInt (healthPort fl))]]\<rparr>)"
| echo_health_return: "ec_exit s = None \<Longrightarrow> ec_health s = HealthServing \<Longrightarrow> health_exit errClosed e = (x, lg) \<Longrightarrow>
    echo_step env errClosed fl s (s\<lparr>ec_health := HealthGone, ec_exit := x, ec_log := ec_log s @ lg\<rparr>)"
| echo_main_exit: "ec_exit s = None \<Longrightarrow> ec_main s = MainStarting \<Longrightarrow> echo_start env fl = EchoExit x lg \<Longrightarrow>
    echo_step env errClosed fl s (s\<lparr>ec_exit := Some x, ec_log := ec_log s @ lg\<rparr>)"
| echo_main_serve: "ec_exit s = None \<Longrightarrow> ec_main s = MainStarting \<Longrightarrow> echo_start env fl = EchoServe srv lg \<Longrightarrow>
    echo_step env errClosed fl s (s\<lparr>ec_main := MainServing srv, ec_log := ec_log s @ lg\<rparr>)"
| echo_main_return: "ec_exit s = None \<Longrightarrow> ec_main s = MainServing srv \<Longrightarrow> echo_exit errClosed srv e = (x, lg) \<Longrightarrow>
    echo_step env errClosed fl s (s\<lparr>ec_main := MainReturned srv e, ec_exit := Some x, ec_log := ec_log s @ lg\<rparr>)"

section \<open>Invariant of main\<close>

definition echo_inv :: "sys_env \<Rightarrow> go_error \<Rightarrow> echo_flags \<Rightarrow> echo_state \<Rightarrow> bool" where
  "echo_inv env errClosed fl s \<longleftrightarrow>
     (case ec_main s of
        MainStarting \<Rightarrow> True
      | MainServing srv \<Rightarrow> \<exists>lg. echo_start env fl = EchoServe srv lg
      | MainReturned srv e \<Rightarrow> (\<exists>lg. echo_start env fl = EchoServe srv lg) \<and> ec_exit s = Some (fst (echo_exit errClosed srv e)))
   \<and> (ec_exit s = Some 0 \<longrightarrow> (\<exists>srv e. ec_main s = MainReturned srv e \<and> listen_failed errClosed e = None))"

definition echo_work :: "echo_state \<Rightarrow> nat" where
  "echo_work s = (case ec_health s of HealthStarting \<Rightarrow> 2 | HealthServing \<Rightarrow> 1 | HealthGone \<Rightarrow> 0)
     + (case ec_main s of MainStarting \<Rightarrow> 2 | MainServing srv \<Rightarrow> 1 | MainReturned srv e \<Rightarrow> 0)
     + (if ec_exit s = None then 1 else 0)"

lemma echo_start_exit: "echo_start env fl = EchoExit x lg \<Longrightarrow> x = 1"
  by (auto simp: echo_start_def Let_def split: if_splits sum.splits)

lemma echo_inv_step:
  assumes "echo_step env errClosed fl s s'" and "echo_inv env errClosed fl s"
  shows "echo_inv env errClosed fl s' \<and> echo_work s' < echo_work s"
  using assms(1)
proof cases
  case (echo_main_exit x lg)
  with assms(2) show ?thesis by (auto simp: echo_inv_def echo_work_def dest: echo_start_exit)
qed (use assms(2) in \<open>auto simp: echo_inv_def echo_work_def health_exit_def echo_exit_def Let_def
       split: main_echo.splits option.splits health_phase.splits if_splits\<close>)

interpretation echo: step_system "echo_step env errClosed fl" "echo_inv env errClosed fl" echo_work for env errClosed fl
  by unfold_locales (auto dest: echo_inv_step)

lemma echo_init_inv: "echo_inv env errClosed fl echo_init"
  by (simp add: echo_inv_def echo_init_def)

lemma echo_reach_inv: "(echo_step env errClosed fl)\<^sup>*\<^sup>* echo_init s \<Longrightarrow> echo_inv env errClosed fl s"
  using echo_init_inv by (rule echo.reach_inv [rotated])

lemma listen_failed_None: "listen_failed errClosed e = None \<longleftrightarrow> e = None \<or> e = Some errClosed"
  by (auto simp: listen_failed_def split: option.splits)

section \<open>Properties\<close>

lemma auditHandler_ok_writer:
  assumes "fresh_writer w" and "\<not> (logBody fl \<and> echo_Method r = ''POST'') \<or> (\<exists>b. echo_Body r = Inr b)"
  shows "fst (auditHandler fl w r) =
    (let w = header_Add ''Content-Type'' ''application/json'' w
     in w\<lparr>rw_wire := Some (200, rw_header w), rw_body := rw_body w @ ''{\"success\": true}''\<rparr>)"
  using assms
  by (auto simp: auditHandler_def Write_def WriteHeader_def header_Add_def fresh_writer_def Let_def)

text \<open>
  The echo server answers every request: status 200 with a JSON success body, except that a
  POST whose body is to be logged and cannot be read gets status 500. That error body, though JSON, is
  sent as plain text, because \<^verbatim>\<open>http.Error\<close> replaces the content type the handler has set.
\<close>

lemma auditHandler_response:
  "let w = \<lparr>rw_header = [], rw_wire = None, rw_body = [], rw_write_err = None\<rparr>;
       w' = fst (auditHandler fl w r)
   in if logBody fl \<and> echo_Method r = ''POST'' \<and> isl (echo_Body r)
      then rw_wire w' = Some (500, [(''Content-Type'', ''text/plain; charset=utf-8''), (''X-Content-Type-Options'', ''nosniff'')])
         \<and> rw_body w' = ''{\"success\": false}'' @ [CHR 0x0A]
      else rw_wire w' = Some (200, [(''Content-Type'', ''application/json'')])
         \<and> rw_body w' = ''{\"success\": true}''"
proof (cases "logBody fl \<and> echo_Method r = ''POST'' \<and> isl (echo_Body r)")
  case True
  then obtain e where "echo_Body r = Inl e" by (auto simp: isl_def)
  with True show ?thesis
    by (simp add: auditHandler_def http_Error_def header_Add_def header_Del_def header_Set_def Write_def
        WriteHeader_def Let_def)
next
  case False
  then have "\<not> (logBody fl \<and> echo_Method r = ''POST'') \<or> (\<exists>b. echo_Body r = Inr b)"
    by (cases "echo_Body r") auto
  from auditHandler_ok_writer [OF _ this] False show ?thesis
    by (simp add: fresh_writer_def header_Add_def Let_def)
qed

text \<open>
  The echo server verifies client certificates only if all three TLS flags are given: with a
  CA file but without a certificate or key file it serves plain HTTP to everybody, and says nothing.
\<close>

lemma echo_client_auth_iff:
  "(\<exists>srv lg t. echo_start env fl = EchoServe srv lg \<and> es_TLSConfig srv = Some t \<and> ClientAuth t = RequireAndVerifyClientCert) \<longleftrightarrow>
     tlsCertFile fl \<noteq> '''' \<and> tlsKeyFile fl \<noteq> '''' \<and> tlsCAFile fl \<noteq> ''''
   \<and> isl (LoadX509KeyPair env (tlsCertFile fl) (tlsKeyFile fl)) = False
   \<and> (\<exists>pem. ReadFile env (Clean (tlsCAFile fl)) = Inr pem \<and> PEMCerts env pem \<noteq> [])"
  by (auto simp: echo_start_def echo_srv_def setupTLSConfig_def base_tls_config_def Let_def split: sum.splits if_splits)

text \<open>
  The echo server exits with status 0 only when its main listener was closed without an error; a failing health
  server or TLS set-up ends it with status 1. Every run has at most five steps, so no listener is started twice.
\<close>

lemma echo_exit_status:
  assumes "(echo_step env errClosed fl)\<^sup>*\<^sup>* echo_init s"
  shows "(ec_exit s = Some 0 \<longrightarrow> (\<exists>srv e. ec_main s = MainReturned srv e \<and> (e = None \<or> e = Some errClosed)))
    \<and> \<not> (\<exists>s'. (echo_step env errClosed fl ^^ 6) echo_init s')"
proof -
  have "echo_work echo_init = 5" by (simp add: echo_work_def echo_init_def)
  then have "\<not> (\<exists>s'. (echo_step env errClosed fl ^^ 6) echo_init s')"
    by (intro echo.no_long_run [OF echo_init_inv]) simp
  with echo_reach_inv [OF assms] show ?thesis
    by (auto simp: echo_inv_def listen_failed_None)
qed

end
