(* ===== verification/DeepCopy.thy ===== *)
theory DeepCopy
  imports Config "HOL-Library.AList"
begin

text \<open>
  The generated deep copies of the configuration types,
  \<^verbatim>\<open>src/pkg/apis/config/v1alpha1/zz_generated.deepcopy.go\<close>, on an explicit heap.

  What makes a copy deep is invisible on values, so the model keeps Go's pointers: a struct field of
  pointer, slice or map type is the address of what it points to (or nil), and the heap has one store
  for each type of object, all with the same supply of addresses. A dereference of an address that is
  not allocated has no result (\<^term>\<open>None\<close>).

  \<open>rep_forwarder h p cfg A\<close> says that the object at \<open>p\<close> represents the configuration value \<open>cfg\<close> and
  that \<open>A\<close> are all addresses it consists of. The lemmas show that a copy represents the same value, in
  fresh addresses only, and leaves every existing object as it was.
\<close>

section \<open>Heap\<close>

type_synonym addr = nat

record output_cell =
  oc_mode :: string
  oc_http :: "addr option"

record http_cell =
  hc_url :: string
  hc_tls :: "addr option"
  hc_compression :: string

text \<open>The slice of outputs is its backing array; no slice of the configuration is a part of another.\<close>

record forwarder_cell =
  fc_meta :: TypeMeta
  fc_log :: Log
  fc_server :: Server
  fc_outputs :: "addr option"
  fc_annotations :: "addr option"

record heap =
  forwarders :: "addr \<rightharpoonup> forwarder_cell"
  arrays :: "addr \<rightharpoonup> output_cell list"
  outputs :: "addr \<rightharpoonup> output_cell"
  https :: "addr \<rightharpoonup> http_cell"
  clientTLSs :: "addr \<rightharpoonup> ClientTLS"
  logs :: "addr \<rightharpoonup> Log"
  servers :: "addr \<rightharpoonup> Server"
  TLSs :: "addr \<rightharpoonup> TLS"
  maps :: "addr \<rightharpoonup> go_map"
  heap_next :: addr

definition new_addr :: "heap \<Rightarrow> addr \<times> heap" where
  "new_addr h = (heap_next h, h\<lparr>heap_next := Suc (heap_next h)\<rparr>)"

section \<open>Structs without pointers\<close>

text \<open>\<^verbatim>\<open>*out = *in\<close> in one of the stores.\<close>

definition flat_copy :: "(addr \<rightharpoonup> 'a) \<Rightarrow> addr \<Rightarrow> addr \<Rightarrow> (addr \<rightharpoonup> 'a) option" where
  "flat_copy st inp out = map_option (\<lambda>v. st(out \<mapsto> v)) (st inp)"

definition ClientTLS_DeepCopyInto :: "addr \<Rightarrow> addr \<Rightarrow> heap \<Rightarrow> heap option" where
  "ClientTLS_DeepCopyInto inp out h =
     map_option (\<lambda>st. h\<lparr>clientTLSs := st\<rparr>) (flat_copy (clientTLSs h) inp out)"

definition Log_DeepCopyInto :: "addr \<Rightarrow> addr \<Rightarrow> heap \<Rightarrow> heap option" where
  "Log_DeepCopyInto inp out h = map_option (\<lambda>st. h\<lparr>logs := st\<rparr>) (flat_copy (logs h) inp out)"

definition Server_DeepCopyInto :: "addr \<Rightarrow> addr \<Rightarrow> heap \<Rightarrow> heap option" where
  "Server_DeepCopyInto inp out h = map_option (\<lambda>st. h\<lparr>servers := st\<rparr>) (flat_copy (servers h) inp out)"

definition TLS_DeepCopyInto :: "addr \<Rightarrow> addr \<Rightarrow> heap \<Rightarrow> heap option" where
  "TLS_DeepCopyInto inp out h = map_option (\<lambda>st. h\<lparr>TLSs := st\<rparr>) (flat_copy (TLSs h) inp out)"

text \<open>The body of every \<^verbatim>\<open>DeepCopy\<close>: nil for nil, otherwise a new object filled by \<^verbatim>\<open>DeepCopyInto\<close>.\<close>

definition deep_copy ::
    "(addr \<Rightarrow> addr \<Rightarrow> heap \<Rightarrow> heap option) \<Rightarrow> addr option \<Rightarrow> heap \<Rightarrow> (addr option \<times> heap) option" where
  "deep_copy into inp h =
     (case inp of
        None \<Rightarrow> Some (None, h)
      | Some p \<Rightarrow> (let (out, h) = new_addr h in map_option (\<lambda>h. (Some out, h)) (into p out h)))"

definition ClientTLS_DeepCopy :: "addr option \<Rightarrow> heap \<Rightarrow> (addr option \<times> heap) option" where
  "ClientTLS_DeepCopy = deep_copy ClientTLS_DeepCopyInto"

definition Log_DeepCopy :: "addr option \<Rightarrow> heap \<Rightarrow> (addr option \<times> heap) option" where
  "Log_DeepCopy = deep_copy Log_DeepCopyInto"

definition Server_DeepCopy :: "addr option \<Rightarrow> heap \<Rightarrow> (addr option \<times> heap) option" where
  "Server_DeepCopy = deep_copy Server_DeepCopyInto"

definition TLS_DeepCopy :: "addr option \<Rightarrow> heap \<Rightarrow> (addr option \<times> heap) option" where
  "TLS_DeepCopy = deep_copy TLS_DeepCopyInto"

section \<open>Outputs\<close>

definition OutputHTTP_DeepCopyInto :: "addr \<Rightarrow> addr \<Rightarrow> heap \<Rightarrow> heap option" where
  "OutputHTTP_DeepCopyInto inp out h =
     (case https h inp of
        None \<Rightarrow> None
      | Some c \<Rightarrow>
          (let h = h\<lparr>https := (https h)(out \<mapsto> c)\<rparr>
           in case hc_tls c of
                None \<Rightarrow> Some h
              | Some t \<Rightarrow>
                  (let (n, h) = new_addr h
                   in map_option (\<lambda>st. h\<lparr>clientTLSs := st, https := (https h)(out \<mapsto> c\<lparr>hc_tls := Some n\<rparr>)\<rparr>)
                        (flat_copy (clientTLSs h) t n))))"

definition OutputHTTP_DeepCopy :: "addr option \<Rightarrow> heap \<Rightarrow> (addr option \<times> heap) option" where
  "OutputHTTP_DeepCopy = deep_copy OutputHTTP_DeepCopyInto"

text \<open>An output lives in an array or by itself: what \<^verbatim>\<open>DeepCopyInto\<close> stores in it, for the value found.\<close>

definition Output_copy_value :: "output_cell \<Rightarrow> heap \<Rightarrow> (output_cell \<times> heap) option" where
  "Output_copy_value c h =
     (case oc_http c of
        None \<Rightarrow> Some (c, h)
      | Some p \<Rightarrow>
          (let (n, h) = new_addr h
           in map_option (\<lambda>h. (c\<lparr>oc_http := Some n\<rparr>, h)) (OutputHTTP_DeepCopyInto p n h)))"

definition Output_DeepCopyInto :: "addr \<Rightarrow> addr \<Rightarrow> heap \<Rightarrow> heap option" where
  "Output_DeepCopyInto inp out h =
     (case outputs h inp of
        None \<Rightarrow> None
      | Some c \<Rightarrow> map_option (\<lambda>(c, h). h\<lparr>outputs := (outputs h)(out \<mapsto> c)\<rparr>) (Output_copy_value c h))"

definition Output_DeepCopy :: "addr option \<Rightarrow> heap \<Rightarrow> (addr option \<times> heap) option" where
  "Output_DeepCopy = deep_copy Output_DeepCopyInto"

section \<open>AuditlogForwarder\<close>

text \<open>The loop over the slice: \<open>k\<close> elements from index \<open>i\<close> on, each from one array into the other.\<close>

fun outputs_copy_loop :: "addr \<Rightarrow> addr \<Rightarrow> nat \<Rightarrow> nat \<Rightarrow> heap \<Rightarrow> heap option" where
  "outputs_copy_loop inp out i 0 h = Some h"
| "outputs_copy_loop inp out i (Suc k) h =
     (case arrays h inp of
        None \<Rightarrow> None
      | Some cells \<Rightarrow>
          if i < length cells then
            (case Output_copy_value (cells ! i) h of
               None \<Rightarrow> None
             | Some (c, h) \<Rightarrow>
                 (case arrays h out of
                    None \<Rightarrow> None
                  | Some done \<Rightarrow>
                      outputs_copy_loop inp out (Suc i) k (h\<lparr>arrays := (arrays h)(out \<mapsto> done[i := c])\<rparr>)))
          else None)"

definition zero_output :: output_cell where
  "zero_output = \<lparr>oc_mode = '''', oc_http = None\<rparr>"

definition copy_outputs :: "addr option \<Rightarrow> heap \<Rightarrow> (addr option \<times> heap) option" where
  "copy_outputs a h =
     (case a of
        None \<Rightarrow> Some (None, h)
      | Some inp \<Rightarrow>
          (case arrays h inp of
             None \<Rightarrow> None
           | Some cells \<Rightarrow>
               (let (out, h) = new_addr h;
                    h = h\<lparr>arrays := (arrays h)(out \<mapsto> replicate (length cells) zero_output)\<rparr>
                in map_option (\<lambda>h. (Some out, h)) (outputs_copy_loop inp out 0 (length cells) h))))"

definition copy_annotations :: "addr option \<Rightarrow> heap \<Rightarrow> (addr option \<times> heap) option" where
  "copy_annotations a h =
     (case a of
        None \<Rightarrow> Some (None, h)
      | Some inp \<Rightarrow>
          (case maps h inp of
             None \<Rightarrow> None
           | Some m \<Rightarrow>
               (let (out, h) = new_addr h
                in Some (Some out, h\<lparr>maps := (maps h)(out \<mapsto> fold (\<lambda>(key, val). AList.update key val) m [])\<rparr>))))"

definition AuditlogForwarder_DeepCopyInto :: "addr \<Rightarrow> addr \<Rightarrow> heap \<Rightarrow> heap option" where
  "AuditlogForwarder_DeepCopyInto inp out h =
     (case forwarders h inp of
        None \<Rightarrow> None
      | Some c \<Rightarrow>
          (case copy_outputs (fc_outputs c) (h\<lparr>forwarders := (forwarders h)(out \<mapsto> c)\<rparr>) of
             None \<Rightarrow> None
           | Some (os, h) \<Rightarrow>
               (case copy_annotations (fc_annotations c) (h\<lparr>forwarders := (forwarders h)(out \<mapsto> c\<lparr>fc_outputs := os\<rparr>)\<rparr>) of
                  None \<Rightarrow> None
                | Some (m, h) \<Rightarrow>
                    Some (h\<lparr>forwarders := (forwarders h)(out \<mapsto> c\<lparr>fc_outputs := os, fc_annotations := m\<rparr>)\<rparr>))))"

definition AuditlogForwarder_DeepCopy :: "addr option \<Rightarrow> heap \<Rightarrow> (addr option \<times> heap) option" where
  "AuditlogForwarder_DeepCopy = deep_copy AuditlogForwarder_DeepCopyInto"

text \<open>An interface value is nil, or the pointer with its type.\<close>

definition AuditlogForwarder_DeepCopyObject :: "addr option \<Rightarrow> heap \<Rightarrow> (addr option \<times> heap) option" where
  "AuditlogForwarder_DeepCopyObject p h =
     (case AuditlogForwarder_DeepCopy p h of
        None \<Rightarrow> None
      | Some (None, h) \<Rightarrow> Some (None, h)
      | Some (Some c, h) \<Rightarrow> Some (Some c, h))"

section \<open>Objects and the values they represent\<close>

definition agree_at :: "heap \<Rightarrow> heap \<Rightarrow> addr \<Rightarrow> bool" where
  "agree_at h h' a \<longleftrightarrow> forwarders h' a = forwarders h a \<and> arrays h' a = arrays h a \<and> outputs h' a = outputs h a
     \<and> https h' a = https h a \<and> clientTLSs h' a = clientTLSs h a \<and> logs h' a = logs h a
     \<and> servers h' a = servers h a \<and> TLSs h' a = TLSs h a \<and> maps h' a = maps h a"

definition rep_tls :: "heap \<Rightarrow> addr option \<Rightarrow> ClientTLS option \<Rightarrow> addr set \<Rightarrow> bool" where
  "rep_tls h p v A \<longleftrightarrow> A = set_option p \<and> (case p of None \<Rightarrow> v = None | Some a \<Rightarrow> v \<noteq> None \<and> clientTLSs h a = v)"

definition rep_http :: "heap \<Rightarrow> addr \<Rightarrow> OutputHTTP \<Rightarrow> addr set \<Rightarrow> bool" where
  "rep_http h p v A \<longleftrightarrow>
     (\<exists>c B. https h p = Some c \<and> rep_tls h (hc_tls c) (HTTPTLS v) B \<and> A = insert p B
        \<and> v = \<lparr>URL = hc_url c, HTTPTLS = HTTPTLS v, Compression = hc_compression c\<rparr>)"

definition rep_output :: "heap \<Rightarrow> output_cell \<Rightarrow> OutputConfig \<Rightarrow> addr set \<Rightarrow> bool" where
  "rep_output h c v A \<longleftrightarrow> DeliveryMode v = oc_mode c \<and>
     (case oc_http c of
        None \<Rightarrow> HTTP v = None \<and> A = {}
      | Some a \<Rightarrow> (\<exists>hv. HTTP v = Some hv \<and> rep_http h a hv A))"

fun rep_cells :: "heap \<Rightarrow> output_cell list \<Rightarrow> OutputConfig list \<Rightarrow> addr set \<Rightarrow> bool" where
  "rep_cells h [] vs A = (vs = [] \<and> A = {})"
| "rep_cells h (c # cs) vs A =
     (\<exists>v vs' B C. vs = v # vs' \<and> rep_output h c v B \<and> rep_cells h cs vs' C \<and> A = B \<union> C)"

definition rep_outputs :: "heap \<Rightarrow> addr option \<Rightarrow> OutputConfig list \<Rightarrow> addr set \<Rightarrow> bool" where
  "rep_outputs h p vs A \<longleftrightarrow>
     (case p of
        None \<Rightarrow> vs = [] \<and> A = {}
      | Some a \<Rightarrow> (\<exists>cells B. arrays h a = Some cells \<and> rep_cells h cells vs B \<and> A = insert a B))"

definition rep_annotations :: "heap \<Rightarrow> addr option \<Rightarrow> go_map \<Rightarrow> addr set \<Rightarrow> bool" where
  "rep_annotations h p m A \<longleftrightarrow>
     (case p of
        None \<Rightarrow> m = [] \<and> A = {}
      | Some a \<Rightarrow> maps h a = Some m \<and> distinct (map fst m) \<and> A = {a})"

definition rep_forwarder :: "heap \<Rightarrow> addr \<Rightarrow> AuditlogForwarder \<Rightarrow> addr set \<Rightarrow> bool" where
  "rep_forwarder h p v A \<longleftrightarrow>
     (\<exists>c B C. forwarders h p = Some c \<and> rep_outputs h (fc_outputs c) (Outputs v) B
        \<and> rep_annotations h (fc_annotations c) (InjectAnnotations v) C \<and> A = insert p (B \<union> C)
        \<and> Meta v = fc_meta c \<and> LogConfig v = fc_log c \<and> ServerConfig v = fc_server c)"


section \<open>Frames\<close>

text \<open>From \<open>h\<close> to \<open>h'\<close> objects were only added, and existing ones changed at most at the addresses \<open>X\<close>.\<close>

definition frame :: "addr set \<Rightarrow> heap \<Rightarrow> heap \<Rightarrow> bool" where
  "frame X h h' \<longleftrightarrow> heap_next h \<le> heap_next h' \<and> (\<forall>a < heap_next h. a \<notin> X \<longrightarrow> agree_at h h' a)"

lemma agree_at_refl [simp]: "agree_at h h a"
  by (simp add: agree_at_def)

lemma agree_at_trans: "agree_at h h1 a \<Longrightarrow> agree_at h1 h2 a \<Longrightarrow> agree_at h h2 a"
  by (simp add: agree_at_def)

lemma frame_refl [simp]: "frame X h h"
  by (simp add: frame_def)

lemma frame_trans: "frame X h h1 \<Longrightarrow> frame Y h1 h2 \<Longrightarrow> X \<union> Y \<inter> {..<heap_next h} \<subseteq> Z \<Longrightarrow> frame Z h h2"
  unfolding frame_def by (meson IntI UnI1 UnI2 agree_at_trans lessThan_iff less_le_trans order_trans subsetD)

lemma frame_next: "frame X h h' \<Longrightarrow> heap_next h \<le> heap_next h'"
  by (simp add: frame_def)

lemma frame_agree: "frame X h h' \<Longrightarrow> A \<subseteq> {..<heap_next h} \<Longrightarrow> A \<inter> X = {} \<Longrightarrow> \<forall>a\<in>A. agree_at h h' a"
  by (auto simp: frame_def)

lemma new_addr_frame:
  "new_addr h = (n, h1) \<Longrightarrow> n = heap_next h \<and> heap_next h1 = Suc n \<and> frame X h h1 \<and> (\<forall>a. agree_at h h1 a)"
  by (auto simp: new_addr_def frame_def agree_at_def)

lemma rep_tls_agree: "rep_tls h p v A \<Longrightarrow> \<forall>a\<in>A. agree_at h h' a \<Longrightarrow> rep_tls h' p v A"
  by (cases p) (auto simp: rep_tls_def agree_at_def)

lemma rep_http_agree:
  assumes "rep_http h p v A" and "\<forall>a\<in>A. agree_at h h' a"
  shows "rep_http h' p v A"
proof -
  from assms(1) obtain c B where c: "https h p = Some c" "rep_tls h (hc_tls c) (HTTPTLS v) B" "A = insert p B"
    "v = \<lparr>URL = hc_url c, HTTPTLS = HTTPTLS v, Compression = hc_compression c\<rparr>"
    unfolding rep_http_def by blast
  with assms(2) have "https h' p = Some c" by (simp add: agree_at_def)
  moreover have "rep_tls h' (hc_tls c) (HTTPTLS v) B" using rep_tls_agree [OF c(2)] c(3) assms(2) by simp
  ultimately show ?thesis using c(3,4) unfolding rep_http_def by blast
qed

lemma rep_output_agree: "rep_output h c v A \<Longrightarrow> \<forall>a\<in>A. agree_at h h' a \<Longrightarrow> rep_output h' c v A"
  by (auto simp: rep_output_def split: option.splits intro: rep_http_agree)

lemma rep_cells_agree: "rep_cells h cs vs A \<Longrightarrow> \<forall>a\<in>A. agree_at h h' a \<Longrightarrow> rep_cells h' cs vs A"
proof (induction cs arbitrary: vs A)
  case (Cons c cs)
  then obtain v vs' B C where "vs = v # vs'" "rep_output h c v B" "rep_cells h cs vs' C" "A = B \<union> C" by auto
  with Cons.IH [of vs' C] Cons.prems(2) rep_output_agree [of h c v B h'] show ?case by auto
qed simp

lemma rep_outputs_agree:
  assumes "rep_outputs h p vs A" and "\<forall>a\<in>A. agree_at h h' a"
  shows "rep_outputs h' p vs A"
proof (cases p)
  case (Some a)
  with assms(1) obtain cells B where "arrays h a = Some cells" "rep_cells h cells vs B" "A = insert a B"
    by (auto simp: rep_outputs_def)
  with Some assms(2) rep_cells_agree [of h cells vs B h'] show ?thesis
    by (auto simp: rep_outputs_def agree_at_def)
qed (use assms in \<open>simp add: rep_outputs_def\<close>)

lemma rep_annotations_agree: "rep_annotations h p m A \<Longrightarrow> \<forall>a\<in>A. agree_at h h' a \<Longrightarrow> rep_annotations h' p m A"
  by (cases p) (auto simp: rep_annotations_def agree_at_def)

lemma rep_forwarder_agree:
  assumes "rep_forwarder h p v A" and "\<forall>a\<in>A. agree_at h h' a"
  shows "rep_forwarder h' p v A"
proof -
  from assms(1) obtain c B C where c: "forwarders h p = Some c" "rep_outputs h (fc_outputs c) (Outputs v) B"
    "rep_annotations h (fc_annotations c) (InjectAnnotations v) C" "A = insert p (B \<union> C)"
    "Meta v = fc_meta c" "LogConfig v = fc_log c" "ServerConfig v = fc_server c"
    unfolding rep_forwarder_def by blast
  from c(1,4) assms(2) have "forwarders h' p = Some c" by (simp add: agree_at_def)
  moreover have "rep_outputs h' (fc_outputs c) (Outputs v) B"
    using rep_outputs_agree [OF c(2)] c(4) assms(2) by simp
  moreover have "rep_annotations h' (fc_annotations c) (InjectAnnotations v) C"
    using rep_annotations_agree [OF c(3)] c(4) assms(2) by simp
  ultimately show ?thesis using c(4-) unfolding rep_forwarder_def by blast
qed


section \<open>The copy functions\<close>

text \<open>Addresses handed out between two heaps.\<close>

abbreviation fresh_between :: "heap \<Rightarrow> heap \<Rightarrow> addr set" where
  "fresh_between h h' \<equiv> {heap_next h..<heap_next h'}"

lemma OutputHTTP_into:
  assumes "rep_http h p v A" and "A \<subseteq> {..<heap_next h}" and "out < heap_next h" and "out \<notin> A"
  obtains h' B where "OutputHTTP_DeepCopyInto p out h = Some h'" and "frame {out} h h'"
    and "rep_http h' out v (insert out B)" and "B \<subseteq> fresh_between h h'"
proof -
  from assms(1) obtain c B where c: "https h p = Some c" "rep_tls h (hc_tls c) (HTTPTLS v) B" "A = insert p B"
    "v = \<lparr>URL = hc_url c, HTTPTLS = HTTPTLS v, Compression = hc_compression c\<rparr>"
    unfolding rep_http_def by blast
  show ?thesis
  proof (cases "hc_tls c")
    case None
    let ?h = "h\<lparr>https := (https h)(out \<mapsto> c)\<rparr>"
    have "rep_http ?h out v {out}"
      using c None unfolding rep_http_def by (intro exI [of _ c] exI [of _ "{}"]) (simp add: rep_tls_def)
    moreover have "frame {out} h ?h" by (simp add: frame_def agree_at_def)
    ultimately show ?thesis
      using None c(1) by (intro that [of ?h "{}"]) (simp_all add: OutputHTTP_DeepCopyInto_def)
  next
    case (Some t)
    with c(2) obtain tv where tv: "clientTLSs h t = Some tv" "HTTPTLS v = Some tv" "B = {t}"
      by (auto simp: rep_tls_def)
    let ?n = "heap_next h"
    let ?c = "c\<lparr>hc_tls := Some ?n\<rparr>"
    let ?h = "h\<lparr>https := (https h)(out \<mapsto> ?c), clientTLSs := (clientTLSs h)(?n \<mapsto> tv), heap_next := Suc ?n\<rparr>"
    have "OutputHTTP_DeepCopyInto p out h = Some ?h"
      using c(1) Some tv(1) by (simp add: OutputHTTP_DeepCopyInto_def new_addr_def flat_copy_def Let_def)
    moreover have "frame {out} h ?h" by (auto simp: frame_def agree_at_def)
    moreover have "rep_http ?h out v {out, ?n}"
      using c(4) tv(2) unfolding rep_http_def
      by (intro exI [of _ ?c] exI [of _ "{?n}"]) (simp add: rep_tls_def)
    ultimately show ?thesis by (intro that [of ?h "{?n}"]) auto
  qed
qed

lemma Output_value:
  assumes "rep_output h c v A" and "A \<subseteq> {..<heap_next h}"
  obtains c' h' B where "Output_copy_value c h = Some (c', h')" and "frame {} h h'"
    and "rep_output h' c' v B" and "B \<subseteq> fresh_between h h'"
proof (cases "oc_http c")
  case None
  with assms show ?thesis
    by (intro that [of c h "{}"]) (simp_all add: Output_copy_value_def rep_output_def)
next
  case (Some p)
  with assms(1) obtain hv where hv: "HTTP v = Some hv" "rep_http h p hv A" "DeliveryMode v = oc_mode c"
    by (auto simp: rep_output_def)
  let ?n = "heap_next h" and ?h1 = "h\<lparr>heap_next := Suc (heap_next h)\<rparr>"
  have f1: "frame {} h ?h1" by (simp add: frame_def agree_at_def)
  from hv(2) have "rep_http ?h1 p hv A" by (rule rep_http_agree) (simp add: agree_at_def)
  moreover have "A \<subseteq> {..<heap_next ?h1}" "?n < heap_next ?h1" "?n \<notin> A" using assms(2) by auto
  ultimately obtain h' B where h': "OutputHTTP_DeepCopyInto p ?n ?h1 = Some h'" "frame {?n} ?h1 h'"
    "rep_http h' ?n hv (insert ?n B)" "B \<subseteq> fresh_between ?h1 h'" by (rule OutputHTTP_into)
  have "frame {} h h'" using f1 h'(2) by (rule frame_trans) simp
  moreover have "insert ?n B \<subseteq> fresh_between h h'" using h'(4) frame_next [OF h'(2)] by auto
  moreover have "rep_output h' (c\<lparr>oc_http := Some ?n\<rparr>) v (insert ?n B)"
    using hv h'(3) by (simp add: rep_output_def)
  moreover have "Output_copy_value c h = Some (c\<lparr>oc_http := Some ?n\<rparr>, h')"
    using Some h'(1) by (simp add: Output_copy_value_def new_addr_def)
  ultimately show ?thesis using that by blast
qed

lemma outputs_loop:
  assumes "arrays h inp = Some (pre @ cells)" and "arrays h out = Some (dn @ zs)"
    and "length dn = length pre" and "length zs = length cells" and "inp \<noteq> out"
    and "inp < heap_next h" and "out < heap_next h"
    and "rep_cells h cells vs A" and "A \<subseteq> {..<heap_next h}" and "out \<notin> A"
  shows "\<exists>h' cells' B. outputs_copy_loop inp out (length pre) (length cells) h = Some h' \<and> frame {out} h h'
    \<and> arrays h' out = Some (dn @ cells') \<and> rep_cells h' cells' vs B \<and> B \<subseteq> fresh_between h h'"
  using assms
proof (induction cells arbitrary: pre dn zs h vs A)
  case Nil
  then show ?case by simp
next
  case (Cons c cs)
  from Cons.prems(8) obtain v vs' B C where vs: "vs = v # vs'" "rep_output h c v B" "rep_cells h cs vs' C" "A = B \<union> C"
    by auto
  with Cons.prems(9,10) have BC: "B \<subseteq> {..<heap_next h}" "C \<subseteq> {..<heap_next h}" "out \<notin> C" by auto
  from vs(2) BC(1) obtain c' h1 B1 where h1: "Output_copy_value c h = Some (c', h1)" "frame {} h h1"
    "rep_output h1 c' v B1" "B1 \<subseteq> fresh_between h h1" by (rule Output_value)
  from Cons.prems(4) obtain z zs' where zs: "zs = z # zs'" by (cases zs) auto
  let ?h2 = "h1\<lparr>arrays := (arrays h1)(out \<mapsto> (dn @ [c']) @ zs')\<rparr>"
  have arr: "arrays h1 inp = Some (pre @ c # cs)" "arrays h1 out = Some (dn @ z # zs')"
    using h1(2) Cons.prems(1,2,6,7) zs by (auto simp: frame_def agree_at_def)
  have f2: "frame {out} h1 ?h2" by (simp add: frame_def agree_at_def)
  have f02: "frame {out} h ?h2" using h1(2) f2 by (rule frame_trans) auto
  have "rep_cells ?h2 cs vs' C" using vs(3) frame_agree [OF f02 BC(2)] BC(3) by (simp add: rep_cells_agree)
  then have "\<exists>h' cells' B'. outputs_copy_loop inp out (length (pre @ [c])) (length cs) ?h2 = Some h'
      \<and> frame {out} ?h2 h' \<and> arrays h' out = Some ((dn @ [c']) @ cells') \<and> rep_cells h' cells' vs' B'
      \<and> B' \<subseteq> fresh_between ?h2 h'"
    using Cons.prems(3-7) zs arr(1) BC frame_next [OF h1(2)]
    by (intro Cons.IH [of ?h2 "pre @ [c]" "dn @ [c']" zs' vs' C]) auto
  then obtain h' cells' B' where ih: "outputs_copy_loop inp out (length (pre @ [c])) (length cs) ?h2 = Some h'"
      "frame {out} ?h2 h'" "arrays h' out = Some ((dn @ [c']) @ cells')" "rep_cells h' cells' vs' B'"
      "B' \<subseteq> fresh_between ?h2 h'" by blast
  have "frame {out} h h'" using f02 ih(2) by (rule frame_trans) auto
  moreover have "rep_output h' c' v B1"
  proof (rule rep_output_agree [OF h1(3)], rule frame_agree)
    show "frame {out} h1 h'" using f2 ih(2) by (rule frame_trans) auto
    show "B1 \<subseteq> {..<heap_next h1}" "B1 \<inter> {out} = {}" using h1(4) Cons.prems(7) by auto
  qed
  with vs(1) ih(4) have "rep_cells h' (c' # cells') vs (B1 \<union> B')" by auto
  moreover have "B1 \<union> B' \<subseteq> fresh_between h h'"
    using h1(4) ih(5) frame_next [OF h1(2)] frame_next [OF ih(2)] by auto
  moreover have "outputs_copy_loop inp out (length pre) (length (c # cs)) h = Some h'"
    using Cons.prems(1,3) h1(1) arr zs ih(1) by (simp add: list_update_append)
  ultimately show ?case using ih(3) by (intro exI [of _ h'] exI [of _ "c' # cells'"] exI [of _ "B1 \<union> B'"]) simp
qed


lemma copy_outputs_rep:
  assumes "rep_outputs h p vs A" and "A \<subseteq> {..<heap_next h}"
  obtains p' h' B where "copy_outputs p h = Some (p', h')" and "frame {} h h'"
    and "rep_outputs h' p' vs B" and "B \<subseteq> fresh_between h h'" and "p' = None \<longleftrightarrow> p = None"
proof (cases p)
  case None
  with assms show ?thesis by (intro that [of None h "{}"]) (simp_all add: copy_outputs_def rep_outputs_def)
next
  case (Some inp)
  with assms(1) obtain cells B0 where a: "arrays h inp = Some cells" "rep_cells h cells vs B0" "A = insert inp B0"
    by (auto simp: rep_outputs_def)
  let ?n = "heap_next h"
  let ?h1 = "h\<lparr>heap_next := Suc ?n, arrays := (arrays h)(?n \<mapsto> replicate (length cells) zero_output)\<rparr>"
  have f1: "frame {} h ?h1" by (simp add: frame_def agree_at_def)
  have lt: "inp < ?n" "B0 \<subseteq> {..<?n}" "?n \<notin> B0" using assms(2) a(3) by auto
  have "rep_cells ?h1 cells vs B0"
    using a(2) frame_agree [OF f1 lt(2)] by (simp add: rep_cells_agree)
  with lt a(1) have "\<exists>h' cells' B. outputs_copy_loop inp ?n (length ([] :: output_cell list)) (length cells) ?h1 = Some h' \<and> frame {?n} ?h1 h'
      \<and> arrays h' ?n = Some ([] @ cells') \<and> rep_cells h' cells' vs B \<and> B \<subseteq> fresh_between ?h1 h'"
    by (intro outputs_loop [of ?h1 inp "[]" cells ?n "[]" "replicate (length cells) zero_output" vs B0]) auto
  then obtain h' cells' B where l: "outputs_copy_loop inp ?n 0 (length cells) ?h1 = Some h'" "frame {?n} ?h1 h'"
    "arrays h' ?n = Some cells'" "rep_cells h' cells' vs B" "B \<subseteq> fresh_between ?h1 h'" by auto
  have "copy_outputs p h = Some (Some ?n, h')"
    using Some a(1) l(1) by (simp add: copy_outputs_def new_addr_def)
  moreover have "frame {} h h'" using f1 l(2) by (rule frame_trans) auto
  moreover have "rep_outputs h' (Some ?n) vs (insert ?n B)" using l(3,4) by (auto simp: rep_outputs_def)
  moreover have "insert ?n B \<subseteq> fresh_between h h'" using l(5) frame_next [OF l(2)] by auto
  ultimately show ?thesis using Some by (intro that) auto
qed

lemma update_new_key: "k \<notin> fst ` set al \<Longrightarrow> AList.update k v al = al @ [(k, v)]"
  by (induction al) auto

lemma fold_update_fresh:
  "distinct (map fst (acc @ m)) \<Longrightarrow> fold (\<lambda>(k, v). AList.update k v) m acc = acc @ m"
proof (induction m arbitrary: acc)
  case (Cons kv m)
  obtain k v where kv: "kv = (k, v)" by fastforce
  have "k \<notin> fst ` set acc" using Cons.prems kv by auto
  then have "AList.update k v acc = acc @ [(k, v)]" by (rule update_new_key)
  with Cons.IH [of "acc @ [(k, v)]"] Cons.prems kv show ?case by simp
qed simp

lemma copy_annotations_rep:
  assumes "rep_annotations h p m A" and "A \<subseteq> {..<heap_next h}"
  obtains p' h' B where "copy_annotations p h = Some (p', h')" and "frame {} h h'"
    and "rep_annotations h' p' m B" and "B \<subseteq> fresh_between h h'" and "p' = None \<longleftrightarrow> p = None"
proof (cases p)
  case None
  with assms show ?thesis by (intro that [of None h "{}"]) (simp_all add: copy_annotations_def rep_annotations_def)
next
  case (Some a)
  let ?n = "heap_next h"
  let ?h = "h\<lparr>heap_next := Suc ?n, maps := (maps h)(?n \<mapsto> m)\<rparr>"
  from Some assms(1) have m: "maps h a = Some m" "distinct (map fst m)" by (auto simp: rep_annotations_def)
  have "copy_annotations p h = Some (Some ?n, ?h)"
    using Some m fold_update_fresh [of "[]" m] by (simp add: copy_annotations_def new_addr_def)
  moreover have "frame {} h ?h" by (simp add: frame_def agree_at_def)
  ultimately show ?thesis using Some m(2) by (intro that [of "Some ?n" ?h "{?n}"]) (auto simp: rep_annotations_def)
qed

lemma AuditlogForwarder_into:
  assumes "rep_forwarder h p v A" and "A \<subseteq> {..<heap_next h}" and "out < heap_next h" and "out \<notin> A"
  obtains h' B where "AuditlogForwarder_DeepCopyInto p out h = Some h'" and "frame {out} h h'"
    and "rep_forwarder h' out v (insert out B)" and "B \<subseteq> fresh_between h h'"
proof -
  from assms(1) obtain c B C where c: "forwarders h p = Some c" "rep_outputs h (fc_outputs c) (Outputs v) B"
    "rep_annotations h (fc_annotations c) (InjectAnnotations v) C" "A = insert p (B \<union> C)"
    "Meta v = fc_meta c" "LogConfig v = fc_log c" "ServerConfig v = fc_server c"
    unfolding rep_forwarder_def by blast
  let ?w = "\<lambda>cell h. h\<lparr>forwarders := (forwarders h)(out \<mapsto> cell)\<rparr>"
  have fw: "frame {out} h (?w cell h)" for cell h by (simp add: frame_def agree_at_def)
  have sub: "B \<subseteq> {..<heap_next h}" "C \<subseteq> {..<heap_next h}" "B \<inter> {out} = {}" "C \<inter> {out} = {}" using assms(2,4) c(4) by auto
  have "rep_outputs (?w c h) (fc_outputs c) (Outputs v) B"
    using c(2) frame_agree [OF fw sub(1,3)] by (rule rep_outputs_agree)
  moreover have "B \<subseteq> {..<heap_next (?w c h)}" using sub(1) by simp
  ultimately obtain os h1 B1 where h1: "copy_outputs (fc_outputs c) (?w c h) = Some (os, h1)" "frame {} (?w c h) h1"
    "rep_outputs h1 os (Outputs v) B1" "B1 \<subseteq> fresh_between (?w c h) h1" "os = None \<longleftrightarrow> fc_outputs c = None"
    by (rule copy_outputs_rep)
  let ?c1 = "c\<lparr>fc_outputs := os\<rparr>" and ?h2 = "?w (c\<lparr>fc_outputs := os\<rparr>) h1"
  have f1: "frame {out} h h1" using fw h1(2) by (rule frame_trans) auto
  have f2: "frame {out} h ?h2" using f1 fw by (rule frame_trans) auto
  have "rep_annotations ?h2 (fc_annotations c) (InjectAnnotations v) C"
    using c(3) frame_agree [OF f2 sub(2,4)] by (rule rep_annotations_agree)
  moreover have "C \<subseteq> {..<heap_next ?h2}" using sub(2) frame_next [OF f2] by auto
  ultimately obtain mp h3 C1 where h3: "copy_annotations (fc_annotations c) ?h2 = Some (mp, h3)" "frame {} ?h2 h3"
    "rep_annotations h3 mp (InjectAnnotations v) C1" "C1 \<subseteq> fresh_between ?h2 h3" "mp = None \<longleftrightarrow> fc_annotations c = None"
    by (rule copy_annotations_rep)
  let ?c2 = "c\<lparr>fc_outputs := os, fc_annotations := mp\<rparr>"
  let ?h4 = "?w ?c2 h3"
  have f14: "frame {out} h1 ?h4"
    by (rule frame_trans [OF frame_trans [OF fw h3(2), of "{out}"] fw]) auto
  have f4: "frame {out} h ?h4" using f1 f14 by (rule frame_trans) auto
  have fresh: "B1 \<subseteq> {..<heap_next h1}" "B1 \<inter> {out} = {}" "C1 \<subseteq> {..<heap_next h3}" "C1 \<inter> {out} = {}"
    using h1(4) h3(4) assms(3) frame_next [OF f1] by auto
  have "rep_outputs ?h4 os (Outputs v) B1" using h1(3) frame_agree [OF f14 fresh(1,2)] by (rule rep_outputs_agree)
  moreover have "rep_annotations ?h4 mp (InjectAnnotations v) C1"
    using h3(3) frame_agree [OF fw fresh(3,4)] by (rule rep_annotations_agree)
  ultimately have "rep_forwarder ?h4 out v (insert out (B1 \<union> C1))"
    unfolding rep_forwarder_def using c(5-7) by (intro exI [of _ ?c2] exI [of _ B1] exI [of _ C1]) simp
  moreover have "B1 \<union> C1 \<subseteq> fresh_between h ?h4"
    using h1(4) h3(4) frame_next [OF f1] frame_next [OF h3(2)] by auto
  moreover have "AuditlogForwarder_DeepCopyInto p out h = Some ?h4"
    using c(1) h1(1) h3(1) by (simp add: AuditlogForwarder_DeepCopyInto_def)
  ultimately show ?thesis using that f4 by blast
qed

lemma AuditlogForwarder_DeepCopy_rep:
  assumes "rep_forwarder h p v A" and "A \<subseteq> {..<heap_next h}"
  obtains out h' B where "AuditlogForwarder_DeepCopy (Some p) h = Some (Some out, h')" and "frame {} h h'"
    and "rep_forwarder h' out v B" and "B \<subseteq> fresh_between h h'"
proof -
  let ?n = "heap_next h" and ?h1 = "h\<lparr>heap_next := Suc (heap_next h)\<rparr>"
  have f1: "frame {} h ?h1" by (simp add: frame_def agree_at_def)
  have "rep_forwarder ?h1 p v A" using assms(1) by (rule rep_forwarder_agree) (simp add: agree_at_def)
  moreover have "A \<subseteq> {..<heap_next ?h1}" "?n < heap_next ?h1" "?n \<notin> A" using assms(2) by auto
  ultimately obtain h' B where h': "AuditlogForwarder_DeepCopyInto p ?n ?h1 = Some h'" "frame {?n} ?h1 h'"
    "rep_forwarder h' ?n v (insert ?n B)" "B \<subseteq> fresh_between ?h1 h'" by (rule AuditlogForwarder_into)
  show ?thesis
  proof (rule that)
    show "AuditlogForwarder_DeepCopy (Some p) h = Some (Some ?n, h')"
      using h'(1) by (simp add: AuditlogForwarder_DeepCopy_def deep_copy_def new_addr_def)
    show "frame {} h h'" using f1 h'(2) by (rule frame_trans) auto
    show "rep_forwarder h' ?n v (insert ?n B)" by (fact h'(3))
    show "insert ?n B \<subseteq> fresh_between h h'" using h'(4) frame_next [OF h'(2)] by auto
  qed
qed


section \<open>Properties\<close>

text \<open>
  Property C27. \<^verbatim>\<open>DeepCopy\<close> of a configuration succeeds and is deep: the copy represents the same value,
  the original still represents its value, and the two have no address in common. So whatever is written
  later to any part of the one (its slice of outputs, an HTTP or TLS struct, the annotation map) does not
  show in the other. \<^verbatim>\<open>DeepCopy\<close> of nil is nil.
\<close>

theorem DeepCopy_isolated:
  assumes "rep_forwarder h p cfg A" and "A \<subseteq> {..<heap_next h}"
  shows "\<exists>q h' B. AuditlogForwarder_DeepCopyObject (Some p) h = Some (Some q, h')
    \<and> rep_forwarder h' q cfg B \<and> rep_forwarder h' p cfg A \<and> A \<inter> B = {}
    \<and> (\<forall>h2. (\<forall>a. a \<notin> A \<longrightarrow> agree_at h' h2 a) \<longrightarrow> rep_forwarder h2 q cfg B)
    \<and> (\<forall>h2. (\<forall>a. a \<notin> B \<longrightarrow> agree_at h' h2 a) \<longrightarrow> rep_forwarder h2 p cfg A)
    \<and> AuditlogForwarder_DeepCopyObject None h = Some (None, h)"
proof -
  from assms obtain q h' B where c: "AuditlogForwarder_DeepCopy (Some p) h = Some (Some q, h')" "frame {} h h'"
    "rep_forwarder h' q cfg B" "B \<subseteq> fresh_between h h'" by (rule AuditlogForwarder_DeepCopy_rep)
  have orig: "rep_forwarder h' p cfg A"
    using assms(1) frame_agree [OF c(2) assms(2)] by (simp add: rep_forwarder_agree)
  have disj: "A \<inter> B = {}"
  proof -
    have "{..<heap_next h} \<inter> {heap_next h..<heap_next h'} = {}" by auto
    with assms(2) c(4) show ?thesis by blast
  qed
  have "rep_forwarder h2 q cfg B" if "\<forall>a. a \<notin> A \<longrightarrow> agree_at h' h2 a" for h2
    using c(3) by (rule rep_forwarder_agree) (use that disj in blast)
  moreover have "rep_forwarder h2 p cfg A" if "\<forall>a. a \<notin> B \<longrightarrow> agree_at h' h2 a" for h2
    using orig by (rule rep_forwarder_agree) (use that disj in blast)
  moreover have "AuditlogForwarder_DeepCopyObject (Some p) h = Some (Some q, h')"
    "AuditlogForwarder_DeepCopyObject None h = Some (None, h)"
    using c(1) by (simp_all add: AuditlogForwarder_DeepCopyObject_def AuditlogForwarder_DeepCopy_def deep_copy_def)
  ultimately show ?thesis using c(3) orig disj by blast
qed

text \<open>The copies of the structs without pointers, one statement for the four types.\<close>

lemma flat_DeepCopy:
  "ClientTLS_DeepCopy (Some p) h = map_option (\<lambda>v. (Some (heap_next h), h\<lparr>heap_next := Suc (heap_next h),
     clientTLSs := (clientTLSs h)(heap_next h \<mapsto> v)\<rparr>)) (clientTLSs h p)"
  "Log_DeepCopy (Some p) h = map_option (\<lambda>v. (Some (heap_next h), h\<lparr>heap_next := Suc (heap_next h),
     logs := (logs h)(heap_next h \<mapsto> v)\<rparr>)) (logs h p)"
  "Server_DeepCopy (Some p) h = map_option (\<lambda>v. (Some (heap_next h), h\<lparr>heap_next := Suc (heap_next h),
     servers := (servers h)(heap_next h \<mapsto> v)\<rparr>)) (servers h p)"
  "TLS_DeepCopy (Some p) h = map_option (\<lambda>v. (Some (heap_next h), h\<lparr>heap_next := Suc (heap_next h),
     TLSs := (TLSs h)(heap_next h \<mapsto> v)\<rparr>)) (TLSs h p)"
  by (simp_all add: ClientTLS_DeepCopy_def Log_DeepCopy_def Server_DeepCopy_def TLS_DeepCopy_def deep_copy_def
      ClientTLS_DeepCopyInto_def Log_DeepCopyInto_def Server_DeepCopyInto_def TLS_DeepCopyInto_def flat_copy_def
      new_addr_def option.map_comp o_def)

text \<open>A configuration on the heap with one output, which has a TLS struct, and one annotation.\<close>

definition sample_forwarder :: AuditlogForwarder where
  "sample_forwarder = \<lparr>Meta = \<lparr>Kind = '''', APIVersion = ''''\<rparr>, LogConfig = \<lparr>Level = ''info'', Format = ''json''\<rparr>,
     ServerConfig = \<lparr>Port = 1, MetricsPort = 2, Address = '''',
       ServerTLS = \<lparr>CertFile = ''c'', KeyFile = ''k'', ClientCAFile = ''''\<rparr>\<rparr>,
     Outputs = [\<lparr>DeliveryMode = ''Guaranteed'', HTTP = Some \<lparr>URL = ''https://example.com'',
       HTTPTLS = Some \<lparr>CAFile = ''ca'', ClientCertFile = '''', ClientKeyFile = ''''\<rparr>, Compression = ''''\<rparr>\<rparr>],
     InjectAnnotations = [(''shoot'', ''a'')]\<rparr>"

definition sample_heap :: heap where
  "sample_heap = \<lparr>forwarders = [0 \<mapsto> \<lparr>fc_meta = Meta sample_forwarder, fc_log = LogConfig sample_forwarder,
       fc_server = ServerConfig sample_forwarder, fc_outputs = Some 1, fc_annotations = Some 4\<rparr>],
     arrays = [1 \<mapsto> [\<lparr>oc_mode = ''Guaranteed'', oc_http = Some 2\<rparr>]], outputs = Map.empty,
     https = [2 \<mapsto> \<lparr>hc_url = ''https://example.com'', hc_tls = Some 3, hc_compression = ''''\<rparr>],
     clientTLSs = [3 \<mapsto> \<lparr>CAFile = ''ca'', ClientCertFile = '''', ClientKeyFile = ''''\<rparr>],
     logs = Map.empty, servers = Map.empty, TLSs = Map.empty, maps = [4 \<mapsto> [(''shoot'', ''a'')]], heap_next = 5\<rparr>"

lemma sample_heap_rep: "rep_forwarder sample_heap 0 sample_forwarder {0, 1, 2, 3, 4}"
  unfolding rep_forwarder_def
  by (rule exI, rule exI [of _ "{1, 2, 3}"], rule exI [of _ "{4}"])
     (auto simp: sample_heap_def sample_forwarder_def rep_outputs_def rep_output_def rep_http_def rep_tls_def
        rep_annotations_def)

theorem DeepCopy_isolated_witness:
  "\<exists>q h' B. AuditlogForwarder_DeepCopyObject (Some 0) sample_heap = Some (Some q, h')
     \<and> rep_forwarder h' q sample_forwarder B \<and> {0, 1, 2, 3, 4} \<inter> B = {}"
proof -
  have "{0, 1, 2, 3, 4} \<subseteq> {..<heap_next sample_heap}" by (simp add: sample_heap_def)
  from DeepCopy_isolated [OF sample_heap_rep this] show ?thesis by blast
qed

end
