(* ===== verification/Spec2Isabelle.thy ===== *)
theory Spec2Isabelle
  imports BestEffort Requests Lifecycle Scheme TlsWatcher EchoServer DeepCopy
begin

text \<open>
  \<^bold>\<open>A verification of auditlog-forwarder.\<close>

  The forwarder is an HTTPS server that receives batches of Kubernetes audit events from an API server,
  optionally adds annotations to every event, and forwards the batch to one \<^emph>\<open>guaranteed\<close> sink, whose
  acceptance decides the response, and to any number of \<^emph>\<open>best-effort\<close> sinks, which are served in the
  background. Its parts are the configuration API with defaulting and validation, the options that turn a
  configuration into outputs and a TLS listener, the request handler, the annotation processor, the HTTP
  output with retries and reloading of TLS credentials, and the command that runs two servers and shuts them
  down. A small echo server is used to try it out.

  \<^bold>\<open>Theories and sources.\<close> All paths are under \<^verbatim>\<open>src/\<close>; a definition has the name of the Go function it
  models wherever that is free.

  \<^item> \<open>Prelude\<close>: words, durations, errors as values (\<^verbatim>\<open>fmt.Errorf\<close> with \<^verbatim>\<open>%w\<close>, \<^verbatim>\<open>errors.Join\<close>, \<^verbatim>\<open>errors.Is\<close>) and
    shared lemmas. \<open>GoStd\<close>: the functions of the Go library the program computes with
    (\<^verbatim>\<open>strings.TrimSpace\<close> on UTF-8, \<^verbatim>\<open>filepath.Clean\<close> and \<^verbatim>\<open>Dir\<close>, \<^verbatim>\<open>net.JoinHostPort\<close>, \<^verbatim>\<open>strconv\<close>,
    \<^verbatim>\<open>time.Duration.String\<close>). \<open>NetHttp\<close>: the response writer, error responses and \<^verbatim>\<open>ServeMux\<close> routing.
    \<open>StepSystem\<close>: the locales of step relations with an invariant and a decreasing amount of work.
  \<^item> \<open>Config\<close>: \<^verbatim>\<open>pkg/apis/config/v1alpha1/types.go\<close>, \<^verbatim>\<open>defaults.go\<close>, \<^verbatim>\<open>zz_generated.defaults.go\<close>.
    \<open>DeepCopy\<close>: \<^verbatim>\<open>zz_generated.deepcopy.go\<close> on an explicit heap. \<open>Validation\<close>:
    \<^verbatim>\<open>validation/validation.go\<close>. \<open>Scheme\<close>: \<^verbatim>\<open>register.go\<close>, the generated \<^verbatim>\<open>RegisterDefaults\<close> and the package
    initialisation in \<^verbatim>\<open>options.go\<close> that builds the configuration decoder.
  \<^item> \<open>LoggerContext\<close>: \<^verbatim>\<open>internal/context/logger.go\<close>, and contexts with their cancellation. \<open>Metrics\<close>:
    \<^verbatim>\<open>internal/metrics/metrics.go\<close>. \<open>Interfaces\<close>: the Go interfaces \<^verbatim>\<open>Processor\<close> and \<^verbatim>\<open>Output\<close> as records of
    operations and as the locales \<open>data_processor\<close>, \<open>output_sender\<close>, \<open>output_closer\<close> and \<open>output_builder\<close>; the
    handler, the factory and the command are verified against these, and the annotation injector and the
    HTTP output are shown to satisfy them.
  \<^item> \<open>Annotation\<close>: \<^verbatim>\<open>internal/processor/annotation/annotation.go\<close> and \<^verbatim>\<open>internal/helper/audit_event.go\<close>.
  \<^item> \<open>TlsClient\<close>, \<open>HttpOutput\<close>, \<open>HttpSend\<close>, \<open>TlsWatcher\<close>: \<^verbatim>\<open>internal/output/http/http.go\<close> and \<^verbatim>\<open>options.go\<close>, in
    this order the client with its credentials, construction and \<^verbatim>\<open>Close\<close>, \<^verbatim>\<open>Send\<close>, and the loop that reloads
    credentials. \<open>Factory\<close>: \<^verbatim>\<open>internal/output/factory/factory.go\<close>.
  \<^item> \<open>Handler\<close>, \<open>FanOut\<close>, \<open>BestEffort\<close>, \<open>Requests\<close>, \<open>Shutdown\<close>, \<open>WaitGroup\<close>: \<^verbatim>\<open>internal/handler/audit/handler.go\<close>; the
    functions, the goroutines of the guaranteed and of the best-effort sends of one request, concurrent requests, the
    handler over its life with requests, background sends and \<^verbatim>\<open>Shutdown\<close> interleaved, and the wait groups on the level
    of Go's implementation.
  \<^item> \<open>Options\<close>: \<^verbatim>\<open>cmd/auditlog-forwarder/app/options/options.go\<close>. \<open>App\<close>, \<open>RunServer\<close>:
    \<^verbatim>\<open>cmd/auditlog-forwarder/app/app.go\<close> and \<^verbatim>\<open>main.go\<close>. \<open>Lifecycle\<close>: the handler of \<open>Shutdown\<close> and the two
    servers of \<open>App\<close> as one process, the way \<^verbatim>\<open>run\<close> composes them. \<open>EchoServer\<close>: \<^verbatim>\<open>cmd/echo-server/main.go\<close>.

  \<^bold>\<open>State and effects.\<close> Pure code is a function. Code that writes metrics, logs or the file-watcher world takes
  that state and returns it. What the scheduler or the world decides is an argument (the order in which
  goroutines report, the answers of a sink attempt by attempt, the instant a context is cancelled) or a step
  relation (\<open>fan_step\<close>, \<open>be_step\<close>, \<open>conc_step\<close>, \<open>group_step\<close>, \<open>life_step\<close>, \<open>watch_run\<close>, \<open>close_step\<close>, \<open>run_step\<close>, \<open>server_step\<close>,
  \<open>proc_step\<close>, \<open>echo_step\<close>), so that a theorem
  covers every interleaving. Nil is \<^term>\<open>None\<close>; a nil dereference is the outcome \<open>Panic\<close>. Durations are 64-bit
  words, ports 32-bit words; lengths, counters and attempt numbers, which stay far below \<open>2 ^ 63\<close>, are not
  bounded.

  \<^bold>\<open>Code outside the repository\<close> is a parameter: reading files and parsing certificates (\<open>sys_env\<close>), the network
  with gzip, jitter and clock (\<open>send_env\<close>), the apimachinery codec (\<open>codec\<close>, law \<open>codec_ok\<close>: what was encoded
  decodes to itself), the configuration decoder (law \<open>decoder_defaults\<close>: the decoder has applied the registered
  defaulting; \<open>Scheme\<close> derives it from the documented laws \<open>scheme_laws\<close> of apimachinery's schemes), \<^verbatim>\<open>url.Parse\<close> and the annotation validator (no law), \<^verbatim>\<open>wait.Jitter\<close> (law \<open>jitter_ok\<close>), Go's order
  of map iteration (law \<open>range_order\<close>: a permutation).

  \<^bold>\<open>What is shown.\<close>

  \<^item> \<^emph>\<open>Delivery.\<close> A request is answered 200 exactly if its body was read, processed and taken by every
    guaranteed output; a nil result of \<^verbatim>\<open>Send\<close> means a 2xx answer from the sink; together, from the
    configuration file to the sink: nothing is acknowledged that the guaranteed sink has not accepted
    (this theory). Retries, backoff, cancellation, wire format and duration of \<^verbatim>\<open>Send\<close> are characterised.
  \<^item> \<^emph>\<open>Content.\<close> The forwarded batch decodes to the received one with the configured annotations laid over
    those of each event; processing is idempotent and independent of map order, request id and deadline.
  \<^item> \<^emph>\<open>Configuration.\<close> Validation accepts exactly a declarative predicate; an accepted configuration gives
    one guaranteed output and the other outputs as best-effort ones; TLS of the listener and of the clients
    is set up exactly as configured; a deep copy shares nothing with its original; initialising the packages
    does not panic and registers exactly the configuration type with its defaulter.
  \<^item> \<^emph>\<open>Concurrency.\<close> Every interleaving of either fan-out ends, leaves no goroutine, and has the effect of the
    sequential function for some order of reports. Concurrent requests do not interfere: each gets the response the
    sequential handler gives for its own sends, and the counters are exact at every moment. A wait group to which
    nothing is added once it is waited for behaves like the counter the other theories take it for; the handler's own
    group is used differently and can panic while the handler is shut down. \<^verbatim>\<open>Shutdown\<close> and \<^verbatim>\<open>Close\<close> return; the two servers bring each other down
    without deadlock; \<^verbatim>\<open>runServer\<close> with its listener refines a server of \<open>run_step\<close>; bursts of file changes
    cause one reload, after a quiet period.
  \<^item> \<^emph>\<open>The process.\<close> Every run of the process is a run of the handler and of the servers. After a signal the
    code and the clock alone end it within 30 seconds and the time of \<^verbatim>\<open>srv.Shutdown\<close>, and the outputs are closed
    only after the handler was drained or the 30 seconds were over. A failing listener skips all of this.
  \<^item> \<^emph>\<open>Resources and accounting.\<close> Watchers and goroutines are released on every path of construction,
    start-up and shutdown; the counters account for every request and every send.

  \<^bold>\<open>Bounds.\<close> No definition uses fuel: loops over lists are structural, the retry loop terminates by the attempts
  left, and the step relations have the measures \<open>fan_work\<close>, \<open>be_work\<close>, \<open>wg_work\<close>, \<open>run_left\<close>, \<open>server_left\<close>, \<open>close_work\<close> and
  \<open>echo_work\<close>, which give
  the bounds on the length of runs in the theorems. The life of a handler and the watcher loop run as long as
  requests and file events arrive and are not bounded. In \<open>life_step\<close> and \<open>proc_step\<close> serving a request and finishing a
  best-effort goroutine are single steps and the wait group is a counter; \<open>conc_step\<close> and \<open>group_step\<close> take these
  apart, for a handler that is not being shut down and for the group alone.

  \<^bold>\<open>Not modelled.\<close> Flag parsing by cobra and pflag, \<^verbatim>\<open>Resource\<close> of \<^verbatim>\<open>register.go\<close>, which nothing calls, the signal handler, the Prometheus registry, sockets, TLS handshakes and HTTP framing: library code the
  sources only call. Helm charts, tests and build files hold no logic of the forwarder.
\<close>

section \<open>From the configuration file to the sink\<close>

lemma started_outputs:
  assumes "decoder_defaults (ae_decodeInto env)" and "RunE env opt w = Return (Inr (conf, h), w')"
  obtains out where "OutputsGuaranteed conf = [out]" and "1 \<le> maxSendAttempts out"
proof (cases rule: RunE_E [of env opt w])
  case (failed e)
  with assms(2) show ?thesis by simp
next
  case (applied o1 e conf' w1)
  with assms(2) have "e = None" "conf' = conf" by (auto split: option.splits)
  with applied(3) have "ApplyTo env o1 (Logger [] []) empty_AppConfig w = Return (None, conf, w1)" by simp
  with assms(1) applied(1,2) obtain cfg pre g post out where "opt_Config o1 = Some cfg" "Outputs cfg = pre @ g # post"
    "DeliveryMode g = DeliveryModeGuaranteed" "\<forall>c\<in>set (pre @ post). DeliveryMode c = DeliveryModeBestEffort"
    "OutputsGuaranteed conf = [out]" "tuned 4 (500 * Millisecond) (3 * Second) (the (HTTP g)) out"
    "list_all2 (\<lambda>c out. tuned 6 (1 * Second) (6 * Second) (the (HTTP c)) out) (pre @ post) (OutputsBestEffort conf)"
    by (rule ApplyTo_outputs_built)
  with that show ?thesis by (simp add: tuned_def)
qed

lemma run_handler_single:
  assumes "OutputsGuaranteed conf = [out]"
  shows "\<exists>hn. run_handler c order l conf = Inr hn \<and> guaranteedOutputs hn = [(0, out)]
    \<and> processors hn = run_processors c order conf"
  using assms by (simp add: run_handler_def NewHandler_def output_refs_def)

lemma started_handler:
  assumes "decoder_defaults (ae_decodeInto env)" and "RunE env opt w = Return (Inr (conf, h), w')"
    and "run_handler c order l conf = Inr hn"
  obtains out where "OutputsGuaranteed conf = [out]" and "1 \<le> maxSendAttempts out"
    and "guaranteedOutputs hn = [(0, out)]" and "processors hn = run_processors c order conf"
proof -
  from assms(1,2) obtain out where "OutputsGuaranteed conf = [out]" "1 \<le> maxSendAttempts out"
    by (rule started_outputs)
  with run_handler_single [of conf out c order l] assms(3) that show ?thesis by auto
qed


text \<open>
  What is forwarded depends on the body of a request only: the same batch sent again, with
  another request id, another deadline or another client context, gives the same data, so a retry by the
  API server never forwards something else.
\<close>

lemma forwarded_data_context_free:
  assumes "run_handler c order l conf = Inr hn" and "r_body r = r_body r'"
  shows "request_data hn req_id r = request_data hn req_id' r'"
proof -
  have "processors hn = run_processors c order conf"
    using assms(1) by (auto simp: run_handler_def NewHandler_def split: if_splits)
  then have "\<forall>p\<in>set (processors hn). data_processor p"
    by (simp add: run_processors_def injector.data_processor_axioms)
  from process_all_context_free [OF this, of "request_ctx hn req_id r" _ "request_ctx hn req_id' r'"] assms(2)
  show ?thesis by (cases "r_body r'") (simp_all add: request_data_def)
qed

section \<open>Where validation and use disagree\<close>

lemma TrimSpace_padded_gzip: "TrimSpace '' gzip '' = ''gzip''"
  by code_simp

text \<open>
  Property C40. A compression of \<^verbatim>\<open>" gzip "\<close>, with spaces, passes validation, which trims the value, but
  the output compares it untrimmed: events are sent uncompressed and without a \<^verbatim>\<open>Content-Encoding\<close> header.
\<close>

theorem padded_compression_ignored:
  assumes "valid_url parse u" and "new_output \<lparr>URL = u, HTTPTLS = None, Compression = '' gzip ''\<rparr> client = out"
  shows "validateOutputHTTP parse \<lparr>URL = u, HTTPTLS = None, Compression = '' gzip ''\<rparr> p = []
    \<and> send_payload env out data = Inr data
    \<and> Header (mk_request out data) = [(''Content-Type'', ''application/json'')]"
  using assms(1) unfolding assms(2) [symmetric]
  by (simp add: validateOutputHTTP_Nil_iff valid_http_def TrimSpace_padded_gzip send_payload_def mk_request_def
      new_output_def contentEncodingGzip_def)

section \<open>Concrete instances\<close>

lemma sample_RunE:
  obtains conf h w' where
    "RunE sample_app_env (NewOptions\<lparr>ConfigFile := ''/config.yaml''\<rparr>) empty_world = Return (Inr (conf, h), w')"
    and "cfg_InjectAnnotations conf = []"
proof -
  from sample_apply obtain conf w' where
    a: "ApplyTo sample_app_env sample_options (Logger [] []) empty_AppConfig empty_world = Return (None, conf, w')"
      "cfg_InjectAnnotations conf = []" by blast
  have "Options_LogConfig sample_options = Return (''info'', ''json'')"
    by (simp add: Options_LogConfig_def sample_options_def sample_config_fields)
  with a that show ?thesis
    by (simp add: RunE_def sample_complete sample_validate FromSlogHandler_def Let_def)
qed

text \<open>A sink that accepts the first attempt, for any output that tries at all.\<close>

lemma sample_send_accepts:
  assumes "1 \<le> maxSendAttempts out"
  shows "fst (Send (sample_send 1) out ctx data s) = None"
proof -
  obtain r s' where se: "Send (sample_send 1) out ctx data s = (r, s')" by fastforce
  obtain p where p: "send_payload (sample_send 1) out data = Inr p"
    by (cases "out_compression out = contentEncodingGzip") (simp_all add: send_payload_def sample_send_def)
  from Send_outcome [OF assms se p] obtain m where "1 \<le> m" "ends_at (sample_send 1) out ctx p m r" by blast
  then show ?thesis using se by (auto simp: ends_at_def verdict_def sample_send_def)
qed


theorem forwarded_data_context_free_witness:
  "\<exists>hn. run_handler sample_codec (\<lambda>_ m. m) Discard (empty_AppConfig\<lparr>OutputsGuaranteed := [sample_out]\<rparr>) = Inr hn
     \<and> request_data hn ''1'' sample_request = request_data hn ''2'' sample_request"
proof -
  obtain hn where hn: "run_handler sample_codec (\<lambda>_ m. m) Discard
      (empty_AppConfig\<lparr>OutputsGuaranteed := [sample_out]\<rparr>) = Inr hn"
    by (simp add: run_handler_def NewHandler_def output_refs_def)
  from forwarded_data_context_free [OF hn refl] hn show ?thesis by blast
qed

theorem padded_compression_ignored_witness:
  "validateOutputHTTP (ae_parse sample_app_env)
       \<lparr>URL = ''https://example.com/v1/logs'', HTTPTLS = None, Compression = '' gzip ''\<rparr> [] = []
   \<and> send_payload (sample_send 1) (new_output
       \<lparr>URL = ''https://example.com/v1/logs'', HTTPTLS = None, Compression = '' gzip ''\<rparr>
       \<lparr>Timeout = 15 * Second, Transport = None\<rparr>) ''ab'' = Inr ''ab''"
proof -
  have "valid_url (ae_parse sample_app_env) ''https://example.com/v1/logs''"
    by (simp add: valid_url_def sample_app_env_def sample_trims)
  from padded_compression_ignored [OF this refl] show ?thesis by blast
qed

end
